(* ===== verification/C_Prelude.thy ===== *)
theory C_Prelude
  imports Main "HOL-Library.Word" "HOL-Library.Sublist"
begin

text \<open>
  What the components share: the outcome of running a piece of C, the fragment of the C library
  the sources call on strings, and the generic lemmas and simplification collections the component
  proofs use.

  \<^bold>\<open>Outcomes.\<close> A C function is modelled by a HOL function into \<open>'a run\<close>: the list of events
  the call performs and then either the value it returns or the way it stops (\<open>Exit\<close>: it calls
  \<^verbatim>\<open>exit\<close>; \<open>Crash\<close>: it dereferences a pointer that cannot be dereferenced; \<open>Hang\<close>: it never
  returns). An access that misses the bounds of the object it is meant for, where the
  C~standard gives no meaning to the rest of the run, is logged as an event \<open>Fault (OutOfBounds obj)\<close>
  and the run goes on as if the object were large enough. So a run whose log holds no fault is a run
  of conforming C, and the log of the others says which object is overrun.

  \<^bold>\<open>Data.\<close> A C string is the list of its bytes before the terminating NUL; a \<^verbatim>\<open>char *\<close> that may
  be NULL is \<open>string option\<close>; a pointer into a string is the suffix it points to. Sizes are those
  of the LP64 model (\<^verbatim>\<open>int\<close> 4 bytes, pointers and \<^verbatim>\<open>size_t\<close> 8 bytes). The diagnostics of the TLS functions,
  which consume the error queue of OpenSSL, are events \<open>Stderr\<close>; the tracing of the others (\<^verbatim>\<open>printf\<close>, \<^verbatim>\<open>perror\<close>) is
  not part of the model, except where printing is all a function does.
\<close>

named_theorems run_simps \<open>rewriting of the run combinators\<close>
named_theorems cstr_simps \<open>rewriting of the C string functions\<close>

section \<open>Outcomes of a run\<close>

type_synonym cptr = "string option"

datatype fault =
    OutOfBounds string
  | NullDeref string
  | UninitRead string
  | BadPointer string
  | UseAfterFree string
  | DivByZero string
  | SignedOverflow string

datatype halt = Exit int | Crash fault | Hang

datatype event =
    Fault fault
  | SockWrite int string
  | SslWrite string
  | Close int
  | Call string
  | Stderr string

type_synonym 'a run = "event list \<times> (halt + 'a)"

definition ret :: "'a \<Rightarrow> 'a run" where
  "ret x = ([], Inr x)"

definition halt :: "halt \<Rightarrow> 'a run" where
  "halt h = ([], Inl h)"

definition emit :: "event \<Rightarrow> unit run" where
  "emit e = ([e], Inr ())"

definition bind :: "'a run \<Rightarrow> ('a \<Rightarrow> 'b run) \<Rightarrow> 'b run" where
  "bind m k =
     (case snd m of
        Inl h \<Rightarrow> (fst m, Inl h)
      | Inr x \<Rightarrow> (fst m @ fst (k x), snd (k x)))"

definition seq :: "unit run \<Rightarrow> 'b run \<Rightarrow> 'b run" where
  "seq m k = bind m (\<lambda>_. k)"

definition guard_bounds :: "string \<Rightarrow> nat \<Rightarrow> nat \<Rightarrow> unit run" where
  "guard_bounds obj cap i = (if i < cap then ret () else emit (Fault (OutOfBounds obj)))"

definition deref :: "string \<Rightarrow> 'a option \<Rightarrow> 'a run" where
  "deref what p = (case p of None \<Rightarrow> halt (Crash (NullDeref what)) | Some x \<Rightarrow> ret x)"

fun is_fault :: "event \<Rightarrow> bool" where
  "is_fault (Fault _) = True"
| "is_fault _ = False"

definition faults :: "'a run \<Rightarrow> event list" where
  "faults m = filter is_fault (fst m)"

definition crashed :: "'a run \<Rightarrow> bool" where
  "crashed m = (case snd m of Inl (Crash _) \<Rightarrow> True | _ \<Rightarrow> False)"

lemma bind_ret [run_simps, simp]: "bind (ret x) k = k x"
  by (simp add: bind_def ret_def)

lemma bind_halt [run_simps, simp]: "bind (halt h) k = halt h"
  by (simp add: bind_def halt_def)

lemma bind_ret_right [run_simps, simp]: "bind m ret = m"
  by (cases m) (auto simp: bind_def ret_def split: sum.splits)

lemma bind_assoc [run_simps]: "bind (bind m f) g = bind m (\<lambda>x. bind (f x) g)"
  by (cases m) (auto simp: bind_def split: sum.splits)

lemma seq_assoc: "seq (seq a b) c = seq a (seq b c)"
  by (simp add: seq_def bind_assoc)

lemma seq_ret [run_simps, simp]: "seq (ret ()) k = k"
  by (simp add: seq_def)

lemma seq_halt [run_simps, simp]: "seq (halt h) k = halt h"
  by (simp add: seq_def)

lemma seq_emit [run_simps]: "seq (emit e) k = (e # fst k, snd k)"
  by (simp add: seq_def bind_def emit_def)

lemma bind_pair [run_simps]:
  "bind (l, Inr x) k = (l @ fst (k x), snd (k x))" "bind (l, Inl h) k = (l, Inl h)"
  by (simp_all add: bind_def)

lemma guard_bounds_in [run_simps, simp]: "i < cap \<Longrightarrow> guard_bounds obj cap i = ret ()"
  by (simp add: guard_bounds_def)

lemma guard_bounds_out [run_simps]:
  "cap \<le> i \<Longrightarrow> guard_bounds obj cap i = emit (Fault (OutOfBounds obj))"
  by (simp add: guard_bounds_def)

lemma deref_simps [run_simps, simp]:
  "deref w (Some x) = ret x" "deref w None = halt (Crash (NullDeref w))"
  by (simp_all add: deref_def)

lemma ret_inject [simp]: "ret x = ret y \<longleftrightarrow> x = y"
  by (simp add: ret_def)

lemma ret_neq_halt [simp]: "ret x \<noteq> halt h" "halt h \<noteq> ret x"
  by (simp_all add: ret_def halt_def)

lemma fst_snd_ret [simp]: "fst (ret x) = []" "snd (ret x) = Inr x"
  by (simp_all add: ret_def)

lemma fst_snd_halt [simp]: "fst (halt h) = []" "snd (halt h) = Inl h"
  by (simp_all add: halt_def)

lemma faults_simps [simp]:
  "faults (ret x) = []" "faults (halt h) = []" "faults (e # l, r) = (if is_fault e then [e] else []) @ faults (l, r)"
  "faults ([], r) = []"
  by (simp_all add: faults_def ret_def halt_def)

lemma bind_eq_ret_iff:
  "bind m k = ret y \<longleftrightarrow> (\<exists>x. m = ret x \<and> k x = ret y)"
  by (cases m) (auto simp: bind_def ret_def prod_eq_iff split: sum.splits)


text \<open>All events of a run satisfy a predicate; the rules follow the structure of a run.\<close>

named_theorems log_intros \<open>introduction rules for the events of a run\<close>

definition log_all :: "(event \<Rightarrow> bool) \<Rightarrow> 'a run \<Rightarrow> bool" where
  "log_all P m = list_all P (fst m)"

lemma log_all_ret [log_intros]: "log_all P (ret x)"
  by (simp add: log_all_def)

lemma log_all_halt [log_intros]: "log_all P (halt h)"
  by (simp add: log_all_def)

lemma log_all_emit [log_intros]: "P e \<Longrightarrow> log_all P (emit e)"
  by (simp add: log_all_def emit_def)

lemma log_all_bind [log_intros]: "log_all P m \<Longrightarrow> (\<And>x. snd m = Inr x \<Longrightarrow> log_all P (k x)) \<Longrightarrow> log_all P (bind m k)"
  by (auto simp: log_all_def bind_def split: sum.splits)

lemma log_all_seq [log_intros]: "log_all P m \<Longrightarrow> log_all P k \<Longrightarrow> log_all P (seq m k)"
  by (simp add: seq_def log_all_bind)

lemma log_all_if [log_intros]: "(b \<Longrightarrow> log_all P m) \<Longrightarrow> (\<not> b \<Longrightarrow> log_all P k) \<Longrightarrow> log_all P (if b then m else k)"
  by simp

lemma log_all_guard [log_intros]: "P (Fault (OutOfBounds obj)) \<Longrightarrow> log_all P (guard_bounds obj cap i)"
  by (simp add: guard_bounds_def log_all_ret log_all_emit)

lemma log_all_deref [log_intros]: "log_all P (deref w p)"
  by (cases p) (simp_all add: log_all_ret log_all_halt)

lemma log_all_not: "log_all P m \<Longrightarrow> \<not> P e \<Longrightarrow> e \<notin> set (fst m)"
  by (auto simp: log_all_def list_all_iff)

text \<open>
  A run that ends: it returns a value with a property or crashes, and neither exits nor hangs. Unlike the rules for the
  events these have a postcondition, so \<open>bind\<close> is a rule to apply with the fact about its first part.
\<close>

definition ends :: "('a \<Rightarrow> bool) \<Rightarrow> 'a run \<Rightarrow> bool" where
  "ends P m = (case snd m of Inl h \<Rightarrow> (\<exists>f. h = Crash f) | Inr x \<Rightarrow> P x)"

lemma ends_ret [intro]: "P x \<Longrightarrow> ends P (ret x)"
  by (simp add: ends_def)

lemma ends_crash [intro]: "ends P (halt (Crash f))"
  by (simp add: ends_def)

lemma ends_bind: "ends P m \<Longrightarrow> (\<And>x. P x \<Longrightarrow> ends Q (k x)) \<Longrightarrow> ends Q (bind m k)"
  by (cases "snd m") (auto simp: ends_def bind_def)

lemma ends_seq: "ends P m \<Longrightarrow> ends Q k \<Longrightarrow> ends Q (seq m k)"
  by (auto simp: seq_def intro: ends_bind)

lemma ends_if: "(b \<Longrightarrow> ends P m) \<Longrightarrow> (\<not> b \<Longrightarrow> ends P k) \<Longrightarrow> ends P (if b then m else k)"
  by simp

lemma ends_deref: "ends (\<lambda>x. p = Some x) (deref w p)"
  by (cases p) (auto simp: ends_def)

lemma ends_guard: "ends (\<lambda>_. True) (guard_bounds obj cap i)"
  by (simp add: ends_def guard_bounds_def emit_def)

lemma ends_emit: "ends (\<lambda>_. True) (emit e)"
  by (simp add: ends_def emit_def)

lemma ends_mono: "ends P m \<Longrightarrow> (\<And>x. P x \<Longrightarrow> Q x) \<Longrightarrow> ends Q m"
  by (auto simp: ends_def split: sum.splits)

text \<open>A run that does not go on for ever; the rules follow the structure of the run.\<close>

named_theorems hang_intros \<open>introduction rules for runs that do not hang\<close>

definition no_hang :: "'a run \<Rightarrow> bool" where
  "no_hang m \<longleftrightarrow> snd m \<noteq> Inl Hang"

lemma no_hang_ret [hang_intros]: "no_hang (ret x)"
  by (simp add: no_hang_def)

lemma no_hang_halt [hang_intros]: "no_hang (halt (Exit n))" "no_hang (halt (Crash f))"
  by (simp_all add: no_hang_def)

lemma no_hang_emit [hang_intros]: "no_hang (emit e)"
  by (simp add: no_hang_def emit_def)

lemma no_hang_bind [hang_intros]: "no_hang m \<Longrightarrow> (\<And>x. snd m = Inr x \<Longrightarrow> no_hang (k x)) \<Longrightarrow> no_hang (bind m k)"
  by (cases "snd m") (auto simp: no_hang_def bind_def)

lemma no_hang_seq [hang_intros]: "no_hang m \<Longrightarrow> no_hang k \<Longrightarrow> no_hang (seq m k)"
  unfolding seq_def by (rule no_hang_bind)

lemma no_hang_if [hang_intros]: "(b \<Longrightarrow> no_hang m) \<Longrightarrow> (\<not> b \<Longrightarrow> no_hang k) \<Longrightarrow> no_hang (if b then m else k)"
  by simp

lemma no_hang_deref [hang_intros]: "no_hang (deref w p)"
  by (cases p) (simp_all add: no_hang_def)

lemma no_hang_guard [hang_intros]: "no_hang (guard_bounds obj cap i)"
  by (simp add: guard_bounds_def no_hang_def emit_def)

lemma ends_no_hang: "ends P m \<Longrightarrow> no_hang m"
  by (cases "snd m") (auto simp: ends_def no_hang_def)

text \<open>
  Quiet events move no application data and close no socket. A run is calm when it returns and all it does is quiet: the
  calls that only prepare, report or clean up.
\<close>

named_theorems calm_intros \<open>introduction rules for calm runs\<close>

fun quiet :: "event \<Rightarrow> bool" where
  "quiet (Fault _) = True"
| "quiet (Call _) = True"
| "quiet (Stderr _) = True"
| "quiet _ = False"

lemma is_fault_quiet: "is_fault e \<Longrightarrow> quiet e"
  by (cases e) simp_all

definition calm :: "'a run \<Rightarrow> bool" where
  "calm m \<longleftrightarrow> (\<exists>x. snd m = Inr x) \<and> log_all quiet m"

lemma calm_ret [calm_intros]: "calm (ret x)"
  by (simp add: calm_def log_all_def)

lemma calm_emit [calm_intros]: "quiet e \<Longrightarrow> calm (emit e)"
  by (simp add: calm_def log_all_def emit_def)

lemma calm_bind [calm_intros]: "calm m \<Longrightarrow> (\<And>x. calm (k x)) \<Longrightarrow> calm (bind m k)"
  by (auto simp: calm_def log_all_def bind_def)

lemma calm_seq [calm_intros]: "calm m \<Longrightarrow> calm k \<Longrightarrow> calm (seq m k)"
  by (simp add: seq_def calm_bind)

lemma calm_if [calm_intros]: "(b \<Longrightarrow> calm m) \<Longrightarrow> (\<not> b \<Longrightarrow> calm k) \<Longrightarrow> calm (if b then m else k)"
  by simp

lemma calm_pair: "calm (l, Inr x) \<longleftrightarrow> list_all quiet l"
  by (simp add: calm_def log_all_def)

lemma calmE:
  assumes "calm m"
  obtains l x where "m = (l, Inr x)" "list_all quiet l"
  using assms that by (cases m) (auto simp: calm_def log_all_def)

lemma calm_no_hang: "calm m \<Longrightarrow> no_hang m"
  by (auto simp: calm_def no_hang_def)

lemma calm_log: "calm m \<Longrightarrow> (\<And>e. quiet e \<Longrightarrow> P e) \<Longrightarrow> log_all P m"
  by (auto simp: calm_def log_all_def list_all_iff)

lemma calm_snd: "calm m \<Longrightarrow> snd (bind m (\<lambda>_. k)) = snd k"
  by (auto simp: calm_def bind_def)

text \<open>Steps whose value does not matter.\<close>

lemmas ends_skip = ends_seq [OF ends_guard] ends_seq [OF ends_emit]


section \<open>The C library on strings\<close>

abbreviation NUL :: char where
  "NUL \<equiv> CHR 0x00"

abbreviation LF :: char where
  "LF \<equiv> CHR 0x0A"

definition crlf :: string where
  "crlf = [CHR 0x0D, CHR 0x0A]"

definition is_cstring :: "string \<Rightarrow> bool" where
  "is_cstring s \<longleftrightarrow> NUL \<notin> set s"

text \<open>\<^verbatim>\<open>strcmp\<close> and \<^verbatim>\<open>strncmp\<close>: the difference of the first bytes that differ.\<close>

definition byte :: "char \<Rightarrow> int" where
  "byte c = int (of_char c)"

fun strncmp :: "string \<Rightarrow> string \<Rightarrow> nat \<Rightarrow> int" where
  "strncmp s t 0 = 0"
| "strncmp [] [] (Suc n) = 0"
| "strncmp [] (b # t) (Suc n) = - byte b"
| "strncmp (a # s) [] (Suc n) = byte a"
| "strncmp (a # s) (b # t) (Suc n) = (if a = b then strncmp s t n else byte a - byte b)"

fun strcmp :: "string \<Rightarrow> string \<Rightarrow> int" where
  "strcmp [] [] = 0"
| "strcmp [] (b # t) = - byte b"
| "strcmp (a # s) [] = byte a"
| "strcmp (a # s) (b # t) = (if a = b then strcmp s t else byte a - byte b)"

definition tolower :: "char \<Rightarrow> char" where
  "tolower c = (if 65 \<le> byte c \<and> byte c \<le> 90 then char_of (of_char c + 32 :: nat) else c)"

definition strcasecmp :: "string \<Rightarrow> string \<Rightarrow> int" where
  "strcasecmp s t = strcmp (map tolower s) (map tolower t)"

text \<open>\<^verbatim>\<open>strstr\<close>: the offset of the first occurrence of the needle.\<close>

fun strstr :: "string \<Rightarrow> string \<Rightarrow> nat option" where
  "strstr hay nd =
     (if prefix nd hay then Some 0
      else case hay of [] \<Rightarrow> None | _ # hay' \<Rightarrow> map_option Suc (strstr hay' nd))"

declare strstr.simps [simp del]

text \<open>\<^verbatim>\<open>strlen\<close> of a byte array that holds the data of a string object: it stops at the first NUL.\<close>

definition cstr_of :: "string \<Rightarrow> string" where
  "cstr_of bytes = takeWhile (\<lambda>c. c \<noteq> NUL) bytes"

text \<open>The conversions of \<^verbatim>\<open>printf\<close> that the sources use: \<^verbatim>\<open>%s\<close>, \<^verbatim>\<open>%d\<close>, \<^verbatim>\<open>%i\<close> and \<^verbatim>\<open>%%\<close>.
  A conversion without a matching argument has no defined result.\<close>

datatype farg = FStr string | FInt int

fun nat_digits :: "nat \<Rightarrow> string" where
  "nat_digits n =
     (if n < 10 then [char_of (n + 48)] else nat_digits (n div 10) @ [char_of (n mod 10 + 48)])"

declare nat_digits.simps [simp del]

definition int_digits :: "int \<Rightarrow> string" where
  "int_digits i = (if i < 0 then CHR ''-'' # nat_digits (nat (- i)) else nat_digits (nat i))"

fun cformat :: "string \<Rightarrow> farg list \<Rightarrow> string option" where
  "cformat [] as = Some []"
| "cformat [c] as = (if c = CHR ''%'' then None else Some [c])"
| "cformat (c # d # t) as =
     (if c \<noteq> CHR ''%'' then map_option (Cons c) (cformat (d # t) as)
      else if d = CHR ''%'' then map_option (Cons d) (cformat t as)
      else if d = CHR ''s'' then
        (case as of FStr s # as' \<Rightarrow> map_option (append s) (cformat t as') | _ \<Rightarrow> None)
      else if d = CHR ''d'' \<or> d = CHR ''i'' then
        (case as of FInt i # as' \<Rightarrow> map_option (append (int_digits i)) (cformat t as') | _ \<Rightarrow> None)
      else None)"

text \<open>Reading numbers.\<close>

definition isspace :: "char \<Rightarrow> bool" where
  "isspace c \<longleftrightarrow> c = CHR '' '' \<or> (9 \<le> byte c \<and> byte c \<le> 13)"

definition digit_val :: "char \<Rightarrow> int" where
  "digit_val c =
     (if 48 \<le> byte c \<and> byte c \<le> 57 then byte c - 48
      else if 97 \<le> byte c \<and> byte c \<le> 122 then byte c - 87
      else if 65 \<le> byte c \<and> byte c \<le> 90 then byte c - 55
      else 99)"

text \<open>\<^verbatim>\<open>strtol(s, &p, 0)\<close>: white space, a sign, a prefix that selects the base, the digits of that base; the
  value is limited to the range of \<^verbatim>\<open>long\<close>.\<close>

definition strtol0 :: "string \<Rightarrow> int" where
  "strtol0 s =
     (let s1 = dropWhile isspace s;
          neg = (take 1 s1 = ''-'');
          s2 = (if take 1 s1 = ''-'' \<or> take 1 s1 = ''+'' then drop 1 s1 else s1);
          hex = ((take 2 s2 = ''0x'' \<or> take 2 s2 = ''0X'') \<and> drop 2 s2 \<noteq> [] \<and> digit_val (hd (drop 2 s2)) < 16);
          base = (if hex then 16 else if take 1 s2 = ''0'' then 8 else 10);
          ds = takeWhile (\<lambda>c. digit_val c < base) (if hex then drop 2 s2 else s2);
          v = foldl (\<lambda>a c. a * base + digit_val c) 0 ds
      in if neg then max (- v) (- (2 ^ 63)) else min v (2 ^ 63 - 1))"

text \<open>\<^verbatim>\<open>atoi\<close>: \<^verbatim>\<open>strtol\<close> to the base 10, converted to \<^verbatim>\<open>int\<close>.\<close>

definition strtol10 :: "string \<Rightarrow> int" where
  "strtol10 s =
     (let s1 = dropWhile isspace s;
          s2 = (if take 1 s1 = ''-'' \<or> take 1 s1 = ''+'' then drop 1 s1 else s1);
          v = foldl (\<lambda>a c. a * 10 + digit_val c) 0 (takeWhile (\<lambda>c. digit_val c < 10) s2)
      in if take 1 s1 = ''-'' then max (- v) (- (2 ^ 63)) else min v (2 ^ 63 - 1))"

definition atoi :: "string \<Rightarrow> int" where
  "atoi s = sint (word_of_int (strtol10 s) :: 32 word)"


subsection \<open>Comparison\<close>

lemma cstr_of_id: "is_cstring s \<Longrightarrow> cstr_of s = s"
  by (auto simp: cstr_of_def is_cstring_def takeWhile_eq_all_conv)

lemma byte_range: "0 \<le> byte c" "byte c < 256"
proof -
  have "(of_char c :: nat) \<in> {0..<256}"
    using range_nat_of_char by blast
  then show "0 \<le> byte c" "byte c < 256" by (simp_all add: byte_def)
qed

lemma byte_inject: "byte a = byte b \<longleftrightarrow> a = b"
  by (simp add: byte_def)

lemma byte_eq_0 [simp]: "byte c = 0 \<longleftrightarrow> c = NUL"
  using byte_inject [of c NUL] by (simp add: byte_def)

lemma strcmp_eq_0:
  assumes "is_cstring s" "is_cstring t"
  shows "strcmp s t = 0 \<longleftrightarrow> s = t"
  using assms
  by (induction s t rule: strcmp.induct) (auto simp: is_cstring_def byte_inject)

lemma strncmp_eq_0:
  assumes "is_cstring s" "is_cstring t"
  shows "strncmp s t n = 0 \<longleftrightarrow> take n (s @ [NUL]) = take n (t @ [NUL])"
  using assms
  by (induction s t n rule: strncmp.induct) (auto simp: is_cstring_def byte_inject)

text \<open>Comparing one byte more than the literal is long tests for equality with the literal.\<close>

lemma strncmp_literal [cstr_simps]:
  assumes "is_cstring s" "is_cstring lit" "n = Suc (length lit)"
  shows "strncmp s lit n = 0 \<longleftrightarrow> s = lit"
proof -
  have "take n (s @ [NUL]) = lit @ [NUL] \<longleftrightarrow> s = lit"
  proof
    assume a: "take n (s @ [NUL]) = lit @ [NUL]"
    show "s = lit"
    proof (cases "n \<le> length s")
      case True
      with a have "take n s = lit @ [NUL]" by simp
      then have "NUL \<in> set s" by (metis in_set_conv_decomp in_set_takeD)
      with assms(1) show ?thesis by (simp add: is_cstring_def)
    next
      case False
      with a show ?thesis by simp
    qed
  next
    assume "s = lit"
    then show "take n (s @ [NUL]) = lit @ [NUL]" by (simp add: assms(3))
  qed
  then show ?thesis by (simp add: strncmp_eq_0 assms)
qed


section \<open>Bytes\<close>

type_synonym u8 = "8 word"

lemma byte_bit_high [simp]: "8 \<le> n \<Longrightarrow> \<not> bit (b :: u8) n"
  using bit_imp_le_length [of b n] by auto

text \<open>Two bytes with the same eight bits are equal; with \<open>bit_simps\<close> this decides the identities
  of masks and shifts the protocol byte needs.\<close>

lemma byte_eqI:
  fixes a b :: u8
  assumes "bit a 0 = bit b 0" "bit a 1 = bit b 1" "bit a 2 = bit b 2" "bit a 3 = bit b 3"
    "bit a 4 = bit b 4" "bit a 5 = bit b 5" "bit a 6 = bit b 6" "bit a 7 = bit b 7"
  shows "a = b"
proof (rule bit_word_eqI)
  fix n assume "n < LENGTH(8)"
  then have "n < 8" by simp
  then have "n = 0 \<or> n = 1 \<or> n = 2 \<or> n = 3 \<or> n = 4 \<or> n = 5 \<or> n = 6 \<or> n = 7" by arith
  then show "bit a n = bit b n" using assms by auto
qed


text \<open>A length that fits an \<^verbatim>\<open>int\<close> is not changed by the conversion to \<^verbatim>\<open>int\<close>.\<close>

lemma sint32_nat:
  assumes "n < 2 ^ 31"
  shows "sint (word_of_nat n :: 32 word) = int n"
proof -
  have "sint (word_of_int (int n) :: 32 word) = signed_take_bit (LENGTH(32) - 1) (int n)"
    by (rule sint_sbintrunc')
  also have "\<dots> = int n" using assms by (intro signed_take_bit_int_eq_self) auto
  finally show ?thesis by simp
qed


section \<open>Decimal numbers\<close>

lemma nat_digits_not_Nil [simp]: "nat_digits n \<noteq> []"
  by (simp add: nat_digits.simps [of n])

lemma nat_digits_byte: "c \<in> set (nat_digits n) \<Longrightarrow> 48 \<le> byte c \<and> byte c \<le> 57"
proof (induction n rule: nat_digits.induct)
  case (1 n)
  have "byte (char_of (m + 48 :: nat)) = int m + 48" if "m < 10" for m using that by (simp add: byte_def)
  moreover have "n mod 10 < 10" by simp
  ultimately show ?case using 1 by (auto simp: nat_digits.simps [of n] split: if_splits)
qed

lemma nat_digits_value:
  "foldl (\<lambda>v c. 10 * v + (byte c - 48)) 0 (nat_digits n) = int n"
proof (induction n rule: nat_digits.induct)
  case (1 n)
  have b: "byte (char_of (m + 48 :: nat)) = int m + 48" if "m < 10" for m
    using that by (simp add: byte_def)
  have "10 * int (n div 10) + int (n mod 10) = int n"
    using div_mult_mod_eq [of n 10] by linarith
  then show ?case
    using 1 by (cases "n < 10") (simp_all add: nat_digits.simps [of n] b)
qed

lemma digit_val_decimal: "48 \<le> byte c \<Longrightarrow> byte c \<le> 57 \<Longrightarrow> digit_val c = byte c - 48"
  by (simp add: digit_val_def)

lemma strtol10_digits:
  assumes "n < 2 ^ 63"
  shows "strtol10 (nat_digits n) = int n"
proof -
  obtain c ds where c: "nat_digits n = c # ds" by (cases "nat_digits n") auto
  have b: "48 \<le> byte d \<and> byte d \<le> 57" if "d \<in> set (c # ds)" for d using nat_digits_byte [of d n] that c by simp
  have "c \<noteq> CHR '' ''" "\<not> isspace c" "c \<noteq> CHR ''-''" "c \<noteq> CHR ''+''" using b [of c] by (auto simp: isspace_def byte_def)
  moreover have "takeWhile (\<lambda>d. digit_val d < 10) (nat_digits n) = nat_digits n"
    using b c by (fastforce simp: takeWhile_eq_all_conv digit_val_decimal)
  moreover have "foldl (\<lambda>a d. a * 10 + digit_val d) 0 (nat_digits n) = int n"
    using nat_digits_value [of n] foldl_cong [OF refl refl, of "nat_digits n" "\<lambda>a d. a * 10 + digit_val d"
        "\<lambda>v d. 10 * v + (byte d - 48)" 0] b c
    by (simp add: digit_val_decimal mult.commute)
  ultimately show ?thesis using c assms by (simp add: strtol10_def Let_def)
qed

lemma atoi_digits: "n < 2 ^ 31 \<Longrightarrow> atoi (nat_digits n) = int n"
  by (simp add: atoi_def strtol10_digits sint32_nat)


section \<open>Searching\<close>

lemma strstr_Some:
  "strstr hay nd = Some n \<Longrightarrow> prefix nd (drop n hay) \<and> n + length nd \<le> length hay \<and>
     (\<forall>m < n. \<not> prefix nd (drop m hay))"
proof (induction hay arbitrary: n)
  case Nil
  then show ?case by (auto simp: strstr.simps [of "[]"] split: if_splits)
next
  case (Cons c hay)
  show ?case
  proof (cases "prefix nd (c # hay)")
    case True
    with Cons.prems have "n = 0" by (simp add: strstr.simps [of "c # hay"])
    with True prefix_length_le show ?thesis by fastforce
  next
    case False
    with Cons.prems obtain m where m: "n = Suc m" "strstr hay nd = Some m"
      by (auto simp: strstr.simps [of "c # hay"])
    from Cons.IH [OF m(2)] m(1) False show ?thesis
      by (auto simp: less_Suc_eq_0_disj)
  qed
qed

lemma strstr_None: "strstr hay nd = None \<longleftrightarrow> \<not> sublist nd hay"
proof (induction hay)
  case Nil
  then show ?case by (auto simp: strstr.simps [of "[]"])
next
  case (Cons c hay)
  then show ?case by (auto simp: strstr.simps [of "c # hay"] sublist_Cons_right)
qed

lemma strstr_decomp:
  assumes "strstr hay nd = Some n"
  shows "hay = take n hay @ nd @ drop (n + length nd) hay"
proof -
  from strstr_Some [OF assms] obtain r where r: "drop n hay = nd @ r" by (auto elim: prefixE)
  then have "r = drop (n + length nd) hay" by (metis add.commute append_eq_conv_conj drop_drop)
  with r show ?thesis by (metis append_take_drop_id)
qed

lemma strstr_take_None:
  assumes "strstr hay nd = Some n" "nd \<noteq> []"
  shows "strstr (take n hay) nd = None"
proof -
  have "False" if "sublist nd (take n hay)"
  proof -
    from that obtain a b where ab: "take n hay = a @ nd @ b" by (auto simp: sublist_def)
    then have "length a < n"
      using assms(2) by (metis add_less_same_cancel1 length_append length_greater_0_conv length_take
          less_add_same_cancel1 min_less_iff_conj not_less not_less_iff_gr_or_eq trans_less_add1)
    moreover have "prefix nd (drop (length a) hay)"
    proof -
      have "hay = a @ nd @ b @ drop n hay" using ab by (metis append.assoc append_take_drop_id)
      then show ?thesis by (metis append_eq_conv_conj prefixI)
    qed
    ultimately show False using strstr_Some [OF assms(1)] by blast
  qed
  then show ?thesis by (auto simp: strstr_None)
qed

text \<open>A needle whose first byte does not occur before it is found where it stands.\<close>

lemma strstr_skip [cstr_simps]:
  assumes "nd \<noteq> []" "hd nd \<notin> set p"
  shows "strstr (p @ nd @ r) nd = Some (length p)"
  using assms(2)
proof (induction p)
  case Nil
  then show ?case by (simp add: strstr.simps [of "nd @ r"])
next
  case (Cons c p)
  with assms(1) have "\<not> prefix nd (c # p @ nd @ r)" by (cases nd) auto
  with Cons show ?case by (simp add: strstr.simps [of "c # p @ nd @ r"])
qed

lemma strstr_absent [cstr_simps]:
  assumes "nd \<noteq> []" "hd nd \<notin> set s"
  shows "strstr s nd = None"
  using assms by (auto simp: strstr_None sublist_def in_set_conv_decomp) (metis append.assoc append_Cons list.collapse)

lemma strstr_empty [simp]: "strstr s [] = Some 0"
  by (simp add: strstr.simps)


section \<open>Strings cut at a delimiter\<close>

text \<open>The pieces of a string between the occurrences of a delimiter, found from left to right, and
  their inverse. With an empty delimiter there is nothing to cut at.\<close>

function split_on :: "string \<Rightarrow> string \<Rightarrow> string list" where
  "split_on d s =
     (if d = [] then [s]
      else case strstr s d of
        None \<Rightarrow> [s]
      | Some n \<Rightarrow> take n s # split_on d (drop (n + length d) s))"
  by pat_completeness auto
termination
proof (relation "measure (\<lambda>(d, s). length s)")
  fix d s n
  assume "d \<noteq> []" "strstr s d = Some n"
  then show "((d, drop (n + length d) s), (d, s)) \<in> measure (\<lambda>(d, s). length s)"
    using strstr_Some [of s d n] by (cases d) auto
qed simp

declare split_on.simps [simp del]

fun join_with :: "string \<Rightarrow> string list \<Rightarrow> string" where
  "join_with d [] = []"
| "join_with d [p] = p"
| "join_with d (p # ps) = p @ d @ join_with d ps"

lemma join_with_Cons: "ps \<noteq> [] \<Longrightarrow> join_with d (p # ps) = p @ d @ join_with d ps"
  by (cases ps) auto

lemma split_on_not_Nil [simp]: "split_on d s \<noteq> []"
  by (simp add: split_on.simps [of d s] split: option.splits)

lemma join_split: "join_with d (split_on d s) = s"
proof (induction d s rule: split_on.induct)
  case (1 d s)
  show ?case
  proof (cases "d = [] \<or> strstr s d = None")
    case True
    then show ?thesis by (auto simp: split_on.simps [of d s])
  next
    case False
    then obtain n where n: "d \<noteq> []" "strstr s d = Some n" by auto
    then show ?thesis
      using "1.IH" [OF n] strstr_decomp [OF n(2)] by (simp add: split_on.simps [of d s] join_with_Cons)
  qed
qed

lemma split_on_pieces: "d \<noteq> [] \<Longrightarrow> \<forall>p \<in> set (split_on d s). strstr p d = None"
proof (induction d s rule: split_on.induct)
  case (1 d s)
  then show ?case
    by (auto simp: split_on.simps [of d s] strstr_take_None split: option.splits)
qed

lemma split_on_Cons [cstr_simps]:
  assumes "d \<noteq> []" "hd d \<notin> set p"
  shows "split_on d (p @ d @ r) = p # split_on d r"
  using assms strstr_skip [OF assms] by (simp add: split_on.simps [of d "p @ d @ r"])

lemma split_on_single [cstr_simps]:
  assumes "d \<noteq> []" "hd d \<notin> set p"
  shows "split_on d p = [p]"
  using assms by (simp add: split_on.simps [of d p] strstr_absent)

lemma split_join:
  assumes "d \<noteq> []" "ps \<noteq> []" "\<forall>p \<in> set ps. hd d \<notin> set p"
  shows "split_on d (join_with d ps) = ps"
  using assms
proof (induction d ps rule: join_with.induct)
  case (3 d p q ps)
  then have "split_on d (join_with d (q # ps)) = q # ps" by simp
  with 3 show ?case by (simp add: split_on_Cons)
qed (simp_all add: split_on_single)

end
