(* ===== verification/FawkesProto.thy ===== *)
theory FawkesProto
  imports C_Prelude
begin

unbundle bit_operations_syntax

text \<open>
  \<^verbatim>\<open>src/server/fawkes_proto.h\<close>: the information byte of a request. Bits 4--7 hold the method,
  bits 2--3 the protocol and bits 0--1 the outcome of the requirements check. The encoders read a
  request token and overwrite one field; the decoders read one field and answer -1 for a value that
  stands for nothing. \<^verbatim>\<open>unsigned char\<close> is \<open>8 word\<close>: every operation of the source on the promoted
  \<^verbatim>\<open>int\<close> values is bitwise or a shift, and its result is cut to eight bits, as on the word.
\<close>

section \<open>The three fields\<close>

text \<open>The updates \<^verbatim>\<open>(info & keep) | ((x << k) & ~keep)\<close> at the end of the encoders.\<close>

definition put_proto :: "u8 \<Rightarrow> u8 \<Rightarrow> u8" where
  "put_proto info x = (info AND 243) OR (push_bit 2 x AND NOT 243)"

definition put_method :: "u8 \<Rightarrow> u8 \<Rightarrow> u8" where
  "put_method info x = (info AND 15) OR (push_bit 4 x AND NOT 15)"

definition put_reqmts :: "u8 \<Rightarrow> u8 \<Rightarrow> u8" where
  "put_reqmts info x = (info AND 252) OR (x AND NOT 252)"

text \<open>The reads \<^verbatim>\<open>(info >> 2) & 3\<close>, \<^verbatim>\<open>info >> 4\<close> and \<^verbatim>\<open>info & 3\<close> of the decoders.\<close>

definition get_proto :: "u8 \<Rightarrow> u8" where
  "get_proto info = drop_bit 2 info AND 3"

definition get_method :: "u8 \<Rightarrow> u8" where
  "get_method info = drop_bit 4 info"

definition get_reqmts :: "u8 \<Rightarrow> u8" where
  "get_reqmts info = info AND 3"


section \<open>Encoders\<close>

definition proto_code :: "string \<Rightarrow> u8" where
  "proto_code proto =
     (if strncmp proto ''HTTP/1.0'' 9 = 0 then 1
      else if strncmp proto ''HTTP/1.1'' 9 = 0 then 2
      else if strncmp proto ''HTTP/2.0'' 9 = 0 then 3
      else 0)"

definition encodeProto :: "cptr \<Rightarrow> u8 \<Rightarrow> u8 run" where
  "encodeProto proto info =
     bind (deref ''proto'' proto) (\<lambda>p. ret (put_proto info (proto_code p)))"

text \<open>
  The last test of the chain, \<^verbatim>\<open>method == "" || method == NULL\<close>, is reached only after eight calls
  of \<^verbatim>\<open>strncmp\<close> on the pointer, so a NULL method never gets there; both of its branches store 0.
\<close>

definition method_code :: "string \<Rightarrow> u8" where
  "method_code method =
     (if strncmp method ''GET'' 4 = 0 then 1
      else if strncmp method ''HEAD'' 5 = 0 then 2
      else if strncmp method ''POST'' 5 = 0 then 3
      else if strncmp method ''PUT'' 4 = 0 then 4
      else if strncmp method ''DELETE'' 7 = 0 then 5
      else if strncmp method ''CONNECT'' 8 = 0 then 6
      else if strncmp method ''OPTIONS'' 8 = 0 then 7
      else if strncmp method ''TRACE'' 6 = 0 then 8
      else 0)"

definition encodeMethod :: "cptr \<Rightarrow> u8 \<Rightarrow> u8 run" where
  "encodeMethod method info =
     bind (deref ''method'' method) (\<lambda>m. ret (put_method info (method_code m)))"

definition encodeReqmts :: "u8 \<Rightarrow> u8" where
  "encodeReqmts info =
     (let x = (if (drop_bit 2 info AND 3) \<noteq> 0 \<and> drop_bit 4 info \<noteq> 0 \<and> drop_bit 4 info < 9
               then 1 else 0)
      in put_reqmts info x)"


section \<open>Decoders\<close>

definition decodeProto :: "u8 \<Rightarrow> int" where
  "decodeProto info =
     (if get_proto info = 1 then 1
      else if get_proto info = 2 then 2
      else if get_proto info = 3 then 3
      else - 1)"

definition decodeMethod :: "u8 \<Rightarrow> int" where
  "decodeMethod info =
     (if get_method info = 1 then 1
      else if get_method info = 2 then 2
      else if get_method info = 3 then 3
      else if get_method info = 4 then 4
      else if get_method info = 5 then 5
      else if get_method info = 6 then 6
      else if get_method info = 7 then 7
      else if get_method info = 8 then 8
      else if get_method info = 0 then - 1
      else - 1)"

definition decodeReqmts :: "u8 \<Rightarrow> int" where
  "decodeReqmts info =
     (if get_reqmts info = 1 then 1
      else if get_reqmts info = 2 then - 1
      else if get_reqmts info = 3 then - 1
      else - 1)"

text \<open>What \<^verbatim>\<open>printByteDebug\<close> prints: the byte in decimal and its bits, the highest one first.\<close>

definition ANSI_COLOR_YELLOW :: string where
  "ANSI_COLOR_YELLOW = CHR 0x1B # ''[33m''"

definition ANSI_COLOR_RESET :: string where
  "ANSI_COLOR_RESET = CHR 0x1B # ''[0m''"

definition byte_bits :: "u8 \<Rightarrow> string" where
  "byte_bits b = map (\<lambda>i. if push_bit i b AND 0x80 \<noteq> 0 then CHR ''1'' else CHR ''0'') [0..<8]"

definition printByteDebug :: "u8 \<Rightarrow> string" where
  "printByteDebug b =
     ANSI_COLOR_YELLOW @ ''Byte decimal: '' @ int_digits (uint b) @ [CHR 0x0A]
     @ ''Byte binary : '' @ byte_bits b @ [CHR 0x0A] @ ANSI_COLOR_RESET"


section \<open>Fields as an interface\<close>

text \<open>
  What the encoders and decoders rely on: a field of a byte, read and written through a bound on
  its values, and two fields that do not overlap. The laws are discharged once per field from the
  masks of the source.
\<close>

named_theorems field_defs \<open>the mask and shift expressions of the byte fields\<close>

lemmas [field_defs] =
  put_proto_def put_method_def put_reqmts_def get_proto_def get_method_def get_reqmts_def

locale byte_field =
  fixes put :: "u8 \<Rightarrow> u8 \<Rightarrow> u8"
    and get :: "u8 \<Rightarrow> u8"
    and bound :: u8
  assumes get_put: "get (put b x) = x AND bound"
    and put_put: "put (put b x) y = put b y"
    and put_get: "put b (get b) = b"
begin

lemma get_put_small: "x AND bound = x \<Longrightarrow> get (put b x) = x"
  by (simp add: get_put)

lemma put_injective: "x AND bound = x \<Longrightarrow> y AND bound = y \<Longrightarrow> put b x = put b y \<Longrightarrow> x = y"
  using get_put_small by metis

lemma same_field: "put a x = put b x \<Longrightarrow> put a y = put b y"
  using put_put by metis

end

locale disjoint_fields =
  f: byte_field put1 get1 bound1 + g: byte_field put2 get2 bound2
  for put1 get1 bound1 put2 get2 bound2 +
  assumes frame1: "get1 (put2 b y) = get1 b"
    and frame2: "get2 (put1 b x) = get2 b"
    and commute: "put1 (put2 b y) x = put2 (put1 b x) y"
begin

lemma both: "x AND bound1 = x \<Longrightarrow> y AND bound2 = y \<Longrightarrow>
    get1 (put2 (put1 b x) y) = x \<and> get2 (put2 (put1 b x) y) = y"
  by (simp add: frame1 f.get_put_small g.get_put_small)

end

interpretation proto_field: byte_field put_proto get_proto 3
  by unfold_locales (rule byte_eqI; simp add: field_defs bit_simps)+

interpretation method_field: byte_field put_method get_method 15
  by unfold_locales (rule byte_eqI; simp add: field_defs bit_simps)+

interpretation reqmts_field: byte_field put_reqmts get_reqmts 3
  by unfold_locales (rule byte_eqI; simp add: field_defs bit_simps)+

interpretation proto_method: disjoint_fields put_proto get_proto 3 put_method get_method 15
  by unfold_locales (rule byte_eqI; simp add: field_defs bit_simps)+

interpretation proto_reqmts: disjoint_fields put_proto get_proto 3 put_reqmts get_reqmts 3
  by unfold_locales (rule byte_eqI; simp add: field_defs bit_simps)+

interpretation method_reqmts: disjoint_fields put_method get_method 15 put_reqmts get_reqmts 3
  by unfold_locales (rule byte_eqI; simp add: field_defs bit_simps)+


section \<open>Values of the fields\<close>

lemma get_proto_le: "get_proto b \<le> 3"
  unfolding get_proto_def by (rule word_and_le1)

lemma get_reqmts_le: "get_reqmts b \<le> 3"
  unfolding get_reqmts_def by (rule word_and_le1)

lemma byte_le_3_cases: "(x :: u8) \<le> 3 \<Longrightarrow> x = 0 \<or> x = 1 \<or> x = 2 \<or> x = 3"
proof -
  assume "x \<le> 3"
  then have "unat x \<le> 3" by (simp add: word_le_nat_alt)
  then have "unat x = 0 \<or> unat x = 1 \<or> unat x = 2 \<or> unat x = 3" by arith
  then have "x = of_nat 0 \<or> x = of_nat 1 \<or> x = of_nat 2 \<or> x = of_nat 3"
    by (metis word_nat_cases of_nat_unat ucast_id)
  then show ?thesis by simp
qed

lemma proto_code_small [simp]: "proto_code p AND 3 = proto_code p"
  by (simp add: proto_code_def)

lemma method_code_small [simp]: "method_code m AND 15 = method_code m"
  by (simp add: method_code_def)


text \<open>On C strings the chains of \<^verbatim>\<open>strncmp\<close> calls recognise exactly the names they list.\<close>

lemma proto_code_eq:
  "is_cstring p \<Longrightarrow> proto_code p =
     (if p = ''HTTP/1.0'' then 1 else if p = ''HTTP/1.1'' then 2
      else if p = ''HTTP/2.0'' then 3 else 0)"
  unfolding proto_code_def
  by (subst strncmp_literal; (subst strncmp_literal)?; (subst strncmp_literal)?; simp add: is_cstring_def)

lemma method_code_eq:
  "is_cstring m \<Longrightarrow> method_code m =
     (if m = ''GET'' then 1 else if m = ''HEAD'' then 2 else if m = ''POST'' then 3
      else if m = ''PUT'' then 4 else if m = ''DELETE'' then 5 else if m = ''CONNECT'' then 6
      else if m = ''OPTIONS'' then 7 else if m = ''TRACE'' then 8 else 0)"
proof -
  assume m: "is_cstring m"
  have lit: "is_cstring l \<Longrightarrow> n = Suc (length l) \<Longrightarrow> (strncmp m l n = 0) = (m = l)" for l n
    by (rule strncmp_literal [OF m])
  show ?thesis
    unfolding method_code_def by (simp add: lit is_cstring_def)
qed

lemma decodeProto_put [simp]:
  "decodeProto (put_method b x) = decodeProto b" "decodeProto (put_reqmts b x) = decodeProto b"
  by (simp_all add: decodeProto_def proto_method.frame1 proto_reqmts.frame1)

lemma decodeMethod_put [simp]:
  "decodeMethod (put_proto b x) = decodeMethod b" "decodeMethod (put_reqmts b x) = decodeMethod b"
  by (simp_all add: decodeMethod_def proto_method.frame2 method_reqmts.frame1)

lemma decodeReqmts_put [simp]:
  "decodeReqmts (put_proto b x) = decodeReqmts b" "decodeReqmts (put_method b x) = decodeReqmts b"
  by (simp_all add: decodeReqmts_def proto_reqmts.frame2 method_reqmts.frame2)

lemma decodeProto_code:
  "decodeProto (put_proto b (proto_code p)) = (if proto_code p = 0 then - 1 else uint (proto_code p))"
  by (simp add: decodeProto_def proto_field.get_put_small) (simp add: proto_code_def)

lemma decodeMethod_code:
  "decodeMethod (put_method b (method_code m)) =
     (if method_code m = 0 then - 1 else uint (method_code m))"
  by (simp add: decodeMethod_def method_field.get_put_small) (simp add: method_code_def)

lemma decodeProto_neg: "decodeProto b = - 1 \<longleftrightarrow> get_proto b = 0"
  using byte_le_3_cases [OF get_proto_le [of b]] by (auto simp: decodeProto_def)


lemma byte_le_8_cases:
  "(x :: u8) < 9 \<Longrightarrow> x = 0 \<or> x = 1 \<or> x = 2 \<or> x = 3 \<or> x = 4 \<or> x = 5 \<or> x = 6 \<or> x = 7 \<or> x = 8"
proof -
  assume "x < 9"
  then have "unat x < 9" by (simp add: word_less_nat_alt)
  then have "unat x \<in> set [0..<9]" by simp
  then have "x \<in> of_nat ` set [0..<9]" by (metis image_eqI of_nat_unat ucast_id)
  then show ?thesis by (simp add: upt_rec)
qed

lemma decodeMethod_neg: "decodeMethod b = - 1 \<longleftrightarrow> get_method b = 0 \<or> \<not> get_method b < 9"
  using byte_le_8_cases [of "get_method b"] by (auto simp: decodeMethod_def)


section \<open>Specification and correctness\<close>

text \<open>The names the protocol knows and the numbers that stand for them.\<close>

definition proto_table :: "(string \<times> int) list" where
  "proto_table = [(''HTTP/1.0'', 1), (''HTTP/1.1'', 2), (''HTTP/2.0'', 3)]"

definition method_table :: "(string \<times> int) list" where
  "method_table =
     [(''GET'', 1), (''HEAD'', 2), (''POST'', 3), (''PUT'', 4), (''DELETE'', 5),
      (''CONNECT'', 6), (''OPTIONS'', 7), (''TRACE'', 8)]"

definition number_of :: "(string \<times> int) list \<Rightarrow> string \<Rightarrow> int" where
  "number_of tab s = (case map_of tab s of None \<Rightarrow> - 1 | Some n \<Rightarrow> n)"

lemma proto_number: "is_cstring p \<Longrightarrow>
    (if proto_code p = 0 then - 1 else uint (proto_code p)) = number_of proto_table p"
  by (simp add: proto_code_eq number_of_def proto_table_def)

lemma method_number: "is_cstring m \<Longrightarrow>
    (if method_code m = 0 then - 1 else uint (method_code m)) = number_of method_table m"
  by (simp add: method_code_eq number_of_def method_table_def)

lemma encodeReqmts_eq:
  "encodeReqmts b = put_reqmts b (if decodeProto b \<noteq> - 1 \<and> decodeMethod b \<noteq> - 1 then 1 else 0)"
  by (auto simp: encodeReqmts_def decodeProto_neg decodeMethod_neg get_proto_def get_method_def)

lemma decodeReqmts_encode:
  "decodeReqmts (encodeReqmts b) = (if decodeProto b \<noteq> - 1 \<and> decodeMethod b \<noteq> - 1 then 1 else - 1)"
  by (simp add: encodeReqmts_eq decodeReqmts_def reqmts_field.get_put)

lemma decode_encodeReqmts [simp]:
  "decodeProto (encodeReqmts b) = decodeProto b" "decodeMethod (encodeReqmts b) = decodeMethod b"
  by (simp_all add: encodeReqmts_eq)

lemma encodeProto_ret [run_simps]: "encodeProto (Some p) b = ret (put_proto b (proto_code p))"
  by (simp add: encodeProto_def)

lemma encodeMethod_ret [run_simps]: "encodeMethod (Some m) b = ret (put_method b (method_code m))"
  by (simp add: encodeMethod_def)

lemma byte_bits_eq:
  "byte_bits b = map (\<lambda>n. if bit b n then CHR ''1'' else CHR ''0'') [7, 6, 5, 4, 3, 2, 1, 0]"
proof -
  have "(push_bit i b AND 0x80 \<noteq> 0) = bit b (7 - i)" if "i < 8" for i
  proof -
    have "(0x80 :: u8) = push_bit 7 1" by simp
    then have "(push_bit i b AND 0x80 \<noteq> 0) = bit (push_bit i b) 7"
      by (metis and_exp_eq_0_iff_not_bit push_bit_of_1)
    with that show ?thesis by (simp add: bit_push_bit_iff)
  qed
  then have "byte_bits b = map (\<lambda>i. if bit b (7 - i) then CHR ''1'' else CHR ''0'') [0..<8]"
    unfolding byte_bits_def by (intro map_cong refl) (metis atLeastLessThan_iff set_upt)
  then show ?thesis by (simp add: upt_rec)
qed

definition binary_value :: "string \<Rightarrow> int" where
  "binary_value ds = foldl (\<lambda>v c. 2 * v + (if c = CHR ''1'' then 1 else 0)) 0 ds"

lemma uint_bits: "uint (b :: u8) = horner_sum of_bool 2 (map (bit b) [0, 1, 2, 3, 4, 5, 6, 7])"
proof -
  have "uint b = take_bit 8 (uint b)" by (simp add: take_bit_word_eq_self flip: unsigned_take_bit_eq)
  also have "\<dots> = horner_sum of_bool 2 (map (bit (uint b)) [0..<8])"
    by (simp add: horner_sum_bit_eq_take_bit)
  also have "map (bit (uint b)) [0..<8] = map (bit b) [0..<8]" by (simp add: bit_uint_iff)
  also have "[0..<8] = [0, 1, 2, 3, 4, 5, 6, 7]" by code_simp
  finally show ?thesis .
qed

text \<open>Encoding the protocol token and then decoding the byte gives the number of the protocol the
  token names, -1 for any other token; the method and requirements fields are left as they were.\<close>

theorem encodeProto_decodeProto:
  assumes "is_cstring p"
  shows "\<exists>b'. encodeProto (Some p) b = ret b' \<and> decodeProto b' = number_of proto_table p \<and>
    decodeMethod b' = decodeMethod b \<and> decodeReqmts b' = decodeReqmts b"
  by (simp add: encodeProto_ret decodeProto_code proto_number assms)

theorem encodeProto_decodeProto_witness:
  "\<exists>b'. encodeProto (Some ''HTTP/1.1'') 0x15 = ret b' \<and> decodeProto b' = number_of proto_table ''HTTP/1.1'' \<and>
    decodeMethod b' = decodeMethod 0x15 \<and> decodeReqmts b' = decodeReqmts 0x15"
  by (rule encodeProto_decodeProto) (simp add: is_cstring_def)

text \<open>Encoding the method token and then decoding the byte gives the number of the method the token
  names, -1 for any other token; the protocol and requirements fields are left as they were.\<close>

theorem encodeMethod_decodeMethod:
  assumes "is_cstring m"
  shows "\<exists>b'. encodeMethod (Some m) b = ret b' \<and> decodeMethod b' = number_of method_table m \<and>
    decodeProto b' = decodeProto b \<and> decodeReqmts b' = decodeReqmts b"
  by (simp add: encodeMethod_ret decodeMethod_code method_number assms)

theorem encodeMethod_decodeMethod_witness:
  "\<exists>b'. encodeMethod (Some ''PUT'') 0xFF = ret b' \<and> decodeMethod b' = number_of method_table ''PUT'' \<and>
    decodeProto b' = decodeProto 0xFF \<and> decodeReqmts b' = decodeReqmts 0xFF"
  by (rule encodeMethod_decodeMethod) (simp add: is_cstring_def)

text \<open>The requirements check passes exactly the bytes whose protocol and method fields both decode,
  and it changes neither field.\<close>

theorem encodeReqmts_decides:
  "decodeReqmts (encodeReqmts b) = (if decodeProto b \<noteq> - 1 \<and> decodeMethod b \<noteq> - 1 then 1 else - 1) \<and>
   decodeProto (encodeReqmts b) = decodeProto b \<and> decodeMethod (encodeReqmts b) = decodeMethod b"
  by (simp add: decodeReqmts_encode)

text \<open>C31. The byte of a request, built as the parser builds it (protocol, then method, then requirements check): whatever the byte
  was before, all three decoders then answer for the tokens of the request, the numbers of the protocol and of the method,
  \<open>-1\<close> for a name that is not known, and \<open>1\<close> for the requirements exactly when both are known.\<close>

theorem info_byte_roundtrip:
  assumes "is_cstring p" "is_cstring m"
  shows "\<exists>b1 b2. encodeProto (Some p) b = ret b1 \<and> encodeMethod (Some m) b1 = ret b2 \<and>
    decodeProto (encodeReqmts b2) = number_of proto_table p \<and> decodeMethod (encodeReqmts b2) = number_of method_table m \<and>
    decodeReqmts (encodeReqmts b2) =
      (if number_of proto_table p \<noteq> - 1 \<and> number_of method_table m \<noteq> - 1 then 1 else - 1)"
  using proto_number [OF assms(1)] method_number [OF assms(2)]
  by (simp add: encodeProto_ret encodeMethod_ret decodeReqmts_encode decodeProto_code decodeMethod_code)

theorem info_byte_roundtrip_witness:
  "\<exists>b1 b2. encodeProto (Some ''HTTP/1.1'') 0xFF = ret b1 \<and> encodeMethod (Some ''PATCH'') b1 = ret b2 \<and>
    decodeProto (encodeReqmts b2) = 2 \<and> decodeMethod (encodeReqmts b2) = - 1 \<and> decodeReqmts (encodeReqmts b2) = - 1"
  using info_byte_roundtrip [of "''HTTP/1.1''" "''PATCH''" "0xFF"]
  by (simp add: is_cstring_def number_of_def proto_table_def method_table_def)

text \<open>The debug print shows the eight bits of the byte, highest first: read as a binary numeral they
  give the byte's value.\<close>

theorem byte_bits_value:
  "length (byte_bits b) = 8 \<and> set (byte_bits b) \<subseteq> {CHR ''0'', CHR ''1''} \<and>
   binary_value (byte_bits b) = uint b"
  by (simp add: byte_bits_eq binary_value_def uint_bits)

end
