(* ===== verification/Oop_Dict.thy ===== *)
theory Oop_Dict
  imports C_Prelude "HOL-Library.AList"
begin

text \<open>
  \<^verbatim>\<open>src/util/oop.h\<close>: the fixed-size dictionary of the server (its headers and query parameters)
  and the two communication classes.

  A dictionary is an array of \<^verbatim>\<open>size\<close> pointers into a table of tuples and the number of tuples in
  use. A free slot has a NULL key. Every search looks at the first \<^verbatim>\<open>counter\<close> slots only. The
  operations are modelled on the array itself; the map a dictionary stands for, the invariant under
  which it does, and the interface the request parser relies on come after them.
\<close>

section \<open>The dictionary\<close>

record 'v tuple =
  tkey :: cptr
  tval :: "'v option"

record 'v dict =
  dsize :: nat
  counter :: nat
  entries :: "'v tuple option list"

definition EmptyTuple :: "'v tuple" where
  "EmptyTuple = \<lparr>tkey = None, tval = None\<rparr>"

text \<open>The three flags say which of the three allocations succeed.\<close>

definition initDict :: "bool \<Rightarrow> bool \<Rightarrow> bool \<Rightarrow> nat \<Rightarrow> 'v dict run" where
  "initDict alloc_d alloc_table alloc_entries n =
     (if alloc_d then
        if alloc_table \<and> alloc_entries then
          ret \<lparr>dsize = n, counter = 0, entries = replicate n (Some EmptyTuple)\<rparr>
        else
          seq (emit (Call ''free(d->entries)''))
          (seq (emit (Call ''free(d->table)'')) (seq (emit (Call ''free(d)'')) (halt (Exit (- 1)))))
      else halt (Exit (- 1)))"

text \<open>The conversion of an \<^verbatim>\<open>unsigned int\<close> index to the \<^verbatim>\<open>int\<close> that \<^verbatim>\<open>findKey\<close> returns.\<close>

definition int_of_unsigned :: "nat \<Rightarrow> int" where
  "int_of_unsigned i = (if i < 2 ^ 31 then int i else int i - 2 ^ 32)"

definition key_matches :: "cptr \<Rightarrow> cptr \<Rightarrow> bool" where
  "key_matches k check =
     (case k of None \<Rightarrow> False
      | Some a \<Rightarrow> (case check of None \<Rightarrow> False | Some b \<Rightarrow> strcmp a b = 0))"

definition entry_at :: "'v tuple option list \<Rightarrow> int \<Rightarrow> 'v tuple run" where
  "entry_at es i =
     (if 0 \<le> i \<and> nat i < length es then deref ''entries[i]'' (es ! nat i)
      else halt (Crash (BadPointer ''entries'')))"

fun findKey_loop :: "'v tuple option list \<Rightarrow> cptr \<Rightarrow> nat list \<Rightarrow> int run" where
  "findKey_loop es check [] = ret (- 1)"
| "findKey_loop es check (i # is) =
     bind (entry_at es (int i)) (\<lambda>t.
       if key_matches (tkey t) check then ret (int_of_unsigned i) else findKey_loop es check is)"

definition findKey :: "'v dict \<Rightarrow> cptr \<Rightarrow> int run" where
  "findKey d check = findKey_loop (entries d) check [0..<counter d]"

text \<open>The scan of \<^verbatim>\<open>setTuple\<close> for the first slot that is NULL or has a NULL key.\<close>

fun first_null :: "'v tuple option list \<Rightarrow> nat" where
  "first_null [] = 0"
| "first_null (None # es) = 0"
| "first_null (Some t # es) = (if tkey t = None then 0 else Suc (first_null es))"

definition setTuple :: "'v dict \<Rightarrow> cptr \<Rightarrow> 'v option \<Rightarrow> (int \<times> 'v dict) run" where
  "setTuple d key val =
     bind (findKey d key) (\<lambda>i.
       if i \<noteq> - 1 then
         bind (entry_at (entries d) i) (\<lambda>t.
           ret (0, d\<lparr>entries := (entries d)[nat i := Some (t\<lparr>tval := val\<rparr>)]\<rparr>))
       else if counter d < dsize d then
         (let j = first_null (entries d) in
          bind (entry_at (entries d) (int j)) (\<lambda>t.
            ret (0, d\<lparr>entries := (entries d)[j := Some (t\<lparr>tkey := key, tval := val\<rparr>)],
                      counter := counter d + 1\<rparr>)))
       else ret (- 1, d))"

text \<open>\<^verbatim>\<open>setTuples\<close> is a stub that ends the program.\<close>

definition setTuples :: "'v dict \<Rightarrow> string \<Rightarrow> (int \<times> 'v dict) run" where
  "setTuples d json = halt (Exit (- 1))"

text \<open>The pointer \<^verbatim>\<open>(void *) -1\<close> that stands for ``not found'' is \<open>None\<close>.\<close>

definition getTuple :: "'v dict \<Rightarrow> cptr \<Rightarrow> 'v option option run" where
  "getTuple d key =
     bind (findKey d key) (\<lambda>i.
       if i \<noteq> - 1 then bind (entry_at (entries d) i) (\<lambda>t. ret (Some (tval t)))
       else ret None)"

definition getIndex :: "'v dict \<Rightarrow> nat \<Rightarrow> 'v option option run" where
  "getIndex d index =
     (if index < counter d then
        bind (entry_at (entries d) (int index)) (\<lambda>t.
          if tkey t \<noteq> None then ret (Some (tval t)) else ret None)
      else ret None)"

definition removeTuple :: "'v dict \<Rightarrow> cptr \<Rightarrow> (int \<times> 'v dict) run" where
  "removeTuple d key =
     bind (findKey d key) (\<lambda>i.
       if i \<noteq> - 1 then
         bind (entry_at (entries d) i) (\<lambda>t.
           ret (0, d\<lparr>entries := (entries d)[nat i := Some (t\<lparr>tkey := None, tval := None\<rparr>)],
                     counter := counter d - 1\<rparr>))
       else ret (- 1, d))"

function destroy_loop :: "'v tuple option list \<Rightarrow> nat \<Rightarrow> nat \<Rightarrow> 'v tuple option list \<times> nat" where
  "destroy_loop es c i = (if i < c then destroy_loop (es[i := None]) (c - 1) (i + 1) else (es, c))"
  by pat_completeness auto
termination
  by (relation "measure (\<lambda>(es, c, i). c - i)") auto

declare destroy_loop.simps [simp del]

text \<open>The result is what the entries and the counter hold when the three objects are freed.\<close>

definition destroyDict :: "'v dict \<Rightarrow> ('v tuple option list \<times> nat) run" where
  "destroyDict d =
     ([Call ''free(d->entries)'', Call ''free(d->table)'', Call ''free(d)''],
      Inr (destroy_loop (entries d) (counter d) 0))"


section \<open>Communication classes\<close>

text \<open>A class is the \<^verbatim>\<open>open\<close> method its initialiser stores; a method returns what it prints and its status.\<close>

record tCommClass =
  open_method :: "string \<Rightarrow> string \<times> int"

definition tcpOpen :: "string \<Rightarrow> string \<times> int" where
  "tcpOpen fspec = (''Opening TCP: '' @ fspec @ [CHR 0x0A], 0)"

definition tcpInit :: "tCommClass \<Rightarrow> tCommClass \<times> int" where
  "tcpInit tcp = (tcp\<lparr>open_method := tcpOpen\<rparr>, 0)"

definition httpOpen :: "string \<Rightarrow> string \<times> int" where
  "httpOpen fspec = (''Opening HTTP: '' @ fspec @ [CHR 0x0A], 0)"

definition httpInit :: "tCommClass \<Rightarrow> tCommClass \<times> int" where
  "httpInit http = (http\<lparr>open_method := httpOpen\<rparr>, 0)"


section \<open>The map a dictionary stands for\<close>

text \<open>
  \<open>dict_of n kvs\<close> is the dictionary of size \<open>n\<close> whose first slots hold the pairs \<open>kvs\<close> and whose
  other slots are free; \<open>contents\<close> reads the pairs back; \<open>dict_ok\<close> is the invariant.
\<close>

definition slot :: "string \<times> 'v option \<Rightarrow> 'v tuple option" where
  "slot kv = Some \<lparr>tkey = Some (fst kv), tval = snd kv\<rparr>"

definition dict_of :: "nat \<Rightarrow> (string \<times> 'v option) list \<Rightarrow> 'v dict" where
  "dict_of n kvs =
     \<lparr>dsize = n, counter = length kvs,
      entries = map slot kvs @ replicate (n - length kvs) (Some EmptyTuple)\<rparr>"

fun contents_of :: "'v tuple option list \<Rightarrow> (string \<times> 'v option) list" where
  "contents_of [] = []"
| "contents_of (None # es) = contents_of es"
| "contents_of (Some t # es) =
     (case tkey t of None \<Rightarrow> contents_of es | Some k \<Rightarrow> (k, tval t) # contents_of es)"

definition contents :: "'v dict \<Rightarrow> (string \<times> 'v option) list" where
  "contents d = contents_of (take (counter d) (entries d))"

definition dict_ok :: "'v dict \<Rightarrow> bool" where
  "dict_ok d \<longleftrightarrow>
     d = dict_of (dsize d) (contents d) \<and> length (contents d) \<le> dsize d \<and> dsize d < 2 ^ 31 \<and>
     distinct (map fst (contents d)) \<and> (\<forall>k \<in> fst ` set (contents d). is_cstring k)"

definition dict_map :: "'v dict \<Rightarrow> string \<Rightarrow> 'v option option" where
  "dict_map d = map_of (contents d)"

definition good_pairs :: "nat \<Rightarrow> (string \<times> 'v option) list \<Rightarrow> bool" where
  "good_pairs n kvs \<longleftrightarrow> length kvs \<le> n \<and> n < 2 ^ 31 \<and> distinct (map fst kvs) \<and>
     (\<forall>k \<in> fst ` set kvs. is_cstring k)"

lemma contents_of_slots [simp]: "contents_of (map slot kvs) = kvs"
  by (induction kvs) (auto simp: slot_def)

lemma contents_dict_of [simp]: "contents (dict_of n kvs) = kvs"
  by (simp add: contents_def dict_of_def)

lemma dict_of_sel [simp]:
  "dsize (dict_of n kvs) = n" "counter (dict_of n kvs) = length kvs"
  by (simp_all add: dict_of_def)

lemma dict_ok_dict_of [simp]: "dict_ok (dict_of n kvs) \<longleftrightarrow> good_pairs n kvs"
  by (simp add: dict_ok_def good_pairs_def)

lemma dict_ok_cases:
  assumes "dict_ok d"
  obtains kvs where "d = dict_of (dsize d) kvs" "good_pairs (dsize d) kvs"
  using assms dict_ok_def dict_ok_dict_of by metis

lemma entry_at_slot [simp]:
  "i < length kvs \<Longrightarrow> entry_at (entries (dict_of n kvs)) (int i) =
     ret \<lparr>tkey = Some (fst (kvs ! i)), tval = snd (kvs ! i)\<rparr>"
  by (simp add: entry_at_def dict_of_def nth_append slot_def)

lemma first_null_dict_of: "first_null (entries (dict_of n kvs)) = length kvs"
proof -
  have "first_null (map slot kvs @ replicate m (Some EmptyTuple)) = length kvs" for m
    by (induction kvs) (cases m; auto simp: slot_def EmptyTuple_def)+
  then show ?thesis by (simp add: dict_of_def)
qed

text \<open>The index of a key among the pairs.\<close>

fun key_index :: "string \<Rightarrow> (string \<times> 'v) list \<Rightarrow> nat option" where
  "key_index k [] = None"
| "key_index k ((a, v) # kvs) = (if a = k then Some 0 else map_option Suc (key_index k kvs))"

lemma key_index_None: "key_index k kvs = None \<longleftrightarrow> map_of kvs k = None"
  by (induction kvs) auto

lemma key_index_Some:
  "key_index k kvs = Some i \<Longrightarrow> i < length kvs \<and> fst (kvs ! i) = k \<and> map_of kvs k = Some (snd (kvs ! i))"
  by (induction kvs arbitrary: i) (auto split: if_splits)

lemma key_index_update:
  "key_index k kvs = Some i \<Longrightarrow> AList.update k v kvs = kvs[i := (k, v)]"
  by (induction kvs arbitrary: i) (auto split: if_splits)

lemma key_index_append_new:
  "key_index k kvs = None \<Longrightarrow> AList.update k v kvs = kvs @ [(k, v)]"
  by (induction kvs) (auto split: if_splits)


text \<open>\<^verbatim>\<open>findKey\<close> on a well-formed dictionary is the index of the key.\<close>

lemma findKey_loop_dict_of:
  assumes "good_pairs n kvs" "is_cstring k" "j \<le> length kvs"
  shows "findKey_loop (entries (dict_of n kvs)) (Some k) [j..<length kvs] =
    ret (case key_index k (drop j kvs) of None \<Rightarrow> - 1 | Some i \<Rightarrow> int (j + i))"
  using assms(3)
proof (induction rule: inc_induct)
  case base
  then show ?case by simp
next
  case (step j)
  then have up: "[j..<length kvs] = j # [Suc j..<length kvs]" by (simp add: upt_conv_Cons)
  have dr: "drop j kvs = kvs ! j # drop (Suc j) kvs" using step by (simp add: Cons_nth_drop_Suc)
  have "is_cstring (fst (kvs ! j))" using assms(1) step by (auto simp: good_pairs_def)
  then have m: "key_matches (Some (fst (kvs ! j))) (Some k) \<longleftrightarrow> fst (kvs ! j) = k"
    by (simp add: key_matches_def strcmp_eq_0 assms(2))
  have "j < 2 ^ 31" using assms(1) step by (simp add: good_pairs_def)
  then have "int_of_unsigned j = int j" by (simp add: int_of_unsigned_def)
  with m dr step show ?case
    by (cases "kvs ! j") (auto simp: up split: option.splits)
qed

lemma findKey_dict_of:
  assumes "good_pairs n kvs" "is_cstring k"
  shows "findKey (dict_of n kvs) (Some k) =
    ret (case key_index k kvs of None \<Rightarrow> - 1 | Some i \<Rightarrow> int i)"
  using findKey_loop_dict_of [OF assms, of 0] by (simp add: findKey_def cong: option.case_cong)

lemma getTuple_dict_of:
  assumes "good_pairs n kvs" "is_cstring k"
  shows "getTuple (dict_of n kvs) (Some k) = ret (map_of kvs k)"
  using key_index_Some [of k kvs] key_index_None [of k kvs]
  by (auto simp: getTuple_def findKey_dict_of [OF assms] split: option.splits)

lemma slots_update:
  "i < length kvs \<Longrightarrow> (entries (dict_of n kvs))[i := slot (k, v)] = entries (dict_of n (kvs[i := (k, v)]))"
  by (simp add: dict_of_def list_update_append map_update)

lemma slots_snoc:
  "length kvs < n \<Longrightarrow> (entries (dict_of n kvs))[length kvs := slot (k, v)] = entries (dict_of n (kvs @ [(k, v)]))"
  by (simp add: dict_of_def list_update_append Suc_diff_Suc [symmetric] del: replicate.simps)
     (simp add: replicate_Suc)


lemma setTuple_dict_of:
  assumes "good_pairs n kvs" "is_cstring k"
  shows "setTuple (dict_of n kvs) (Some k) v =
    (if map_of kvs k \<noteq> None \<or> length kvs < n
     then ret (0, dict_of n (AList.update k v kvs)) else ret (- 1, dict_of n kvs))"
proof (cases "key_index k kvs")
  case None
  show ?thesis
  proof (cases "length kvs < n")
    case True
    have t: "entry_at (entries (dict_of n kvs)) (int (length kvs)) = ret EmptyTuple"
      using True by (simp add: entry_at_def dict_of_def nth_append)
    have "Some (EmptyTuple\<lparr>tkey := Some k, tval := v\<rparr>) = slot (k, v)"
      by (simp add: slot_def EmptyTuple_def)
    then show ?thesis
      using None True slots_snoc [of kvs n k v]
      by (simp add: setTuple_def findKey_dict_of [OF assms] first_null_dict_of t key_index_append_new)
  next
    case False
    with None show ?thesis
      by (simp add: setTuple_def findKey_dict_of [OF assms] key_index_None [symmetric])
  qed
next
  case (Some i)
  note i = key_index_Some [OF Some]
  then have "Some (\<lparr>tkey = Some (fst (kvs ! i)), tval = v\<rparr>) = slot (k, v)"
    by (simp add: slot_def)
  then show ?thesis
    using Some i slots_update [of i kvs n k v]
    by (simp add: setTuple_def findKey_dict_of [OF assms] key_index_update)
qed

lemma good_pairs_update:
  assumes "good_pairs n kvs" "is_cstring k" "map_of kvs k \<noteq> None \<or> length kvs < n"
  shows "good_pairs n (AList.update k v kvs)"
proof (cases "key_index k kvs")
  case None
  then have "k \<notin> fst ` set kvs" "map_of kvs k = None"
    by (simp_all add: key_index_None map_of_eq_None_iff)
  with assms None show ?thesis by (auto simp: good_pairs_def key_index_append_new)
next
  case (Some i)
  note i = key_index_Some [OF Some]
  have "map fst (kvs[i := (k, v)]) = map fst kvs"
    using i by (simp add: map_update list_update_same_conv)
  then have "distinct (map fst (kvs[i := (k, v)])) \<and> fst ` set (kvs[i := (k, v)]) = fst ` set kvs"
    using assms(1) by (metis good_pairs_def image_set)
  with assms(1) Some show ?thesis by (simp add: good_pairs_def key_index_update)
qed

lemma removeTuple_dict_of:
  assumes "good_pairs n kvs" "is_cstring k"
  shows "removeTuple (dict_of n kvs) (Some k) =
    (case key_index k kvs of
       None \<Rightarrow> ret (- 1, dict_of n kvs)
     | Some i \<Rightarrow> ret (0, (dict_of n kvs)\<lparr>entries := (entries (dict_of n kvs))[i := Some EmptyTuple],
         counter := length kvs - 1\<rparr>))"
proof (cases "key_index k kvs")
  case (Some i)
  then show ?thesis
    using key_index_Some [OF Some]
    by (simp add: removeTuple_def findKey_dict_of [OF assms] EmptyTuple_def)
qed (simp add: removeTuple_def findKey_dict_of [OF assms])


section \<open>The interface of a bounded store\<close>

text \<open>
  What the request parser relies on when it fills the header and query dictionaries: a store of
  bounded capacity in which \<open>put\<close> answers 0 and updates the map while the key is known or there is
  room, and answers -1 and changes nothing otherwise.
\<close>

locale bounded_store =
  fixes put :: "'d \<Rightarrow> cptr \<Rightarrow> 'v \<Rightarrow> (int \<times> 'd) run"
    and get :: "'d \<Rightarrow> cptr \<Rightarrow> 'v option run"
    and abs :: "'d \<Rightarrow> string \<Rightarrow> 'v option"
    and cap :: "'d \<Rightarrow> nat"
    and ok :: "'d \<Rightarrow> bool"
  assumes get_abs: "ok d \<Longrightarrow> is_cstring k \<Longrightarrow> get d (Some k) = ret (abs d k)"
    and dom_finite: "ok d \<Longrightarrow> finite (dom (abs d))"
    and put_room: "ok d \<Longrightarrow> is_cstring k \<Longrightarrow> k \<in> dom (abs d) \<or> card (dom (abs d)) < cap d \<Longrightarrow>
      \<exists>d'. put d (Some k) v = ret (0, d') \<and> ok d' \<and> abs d' = (abs d)(k \<mapsto> v) \<and> cap d' = cap d"
    and put_full: "ok d \<Longrightarrow> is_cstring k \<Longrightarrow> \<not> (k \<in> dom (abs d) \<or> card (dom (abs d)) < cap d) \<Longrightarrow>
      put d (Some k) v = ret (- 1, d)"
begin

text \<open>Storing a list of pairs, as the loops of \<^verbatim>\<open>parseRequest\<close> do, ignoring the status.\<close>

fun put_all :: "'d \<Rightarrow> (string \<times> 'v) list \<Rightarrow> 'd run" where
  "put_all d [] = ret d"
| "put_all d ((k, v) # kvs) = bind (put d (Some k) v) (\<lambda>(st, d'). put_all d' kvs)"

lemma put_ok:
  assumes "ok d" "is_cstring k"
  shows "\<exists>st d'. put d (Some k) v = ret (st, d') \<and> ok d' \<and> cap d' = cap d"
  using put_room [OF assms] put_full [OF assms] assms by (cases "k \<in> dom (abs d) \<or> card (dom (abs d)) < cap d") blast+

lemma put_all_ok:
  assumes "ok d" "\<forall>k \<in> fst ` set kvs. is_cstring k"
  shows "\<exists>d'. put_all d kvs = ret d' \<and> ok d' \<and> cap d' = cap d"
  using assms
proof (induction kvs arbitrary: d)
  case (Cons kv kvs)
  obtain k v where kv: "kv = (k, v)" by fastforce
  from put_ok [OF Cons.prems(1), of k v] Cons.prems(2) kv obtain st d1 where
    "put d (Some k) v = ret (st, d1)" "ok d1" "cap d1 = cap d" by auto
  with Cons.IH [of d1] Cons.prems(2) kv show ?case by simp
qed simp

lemma put_all_room:
  assumes "ok d" "\<forall>k \<in> fst ` set kvs. is_cstring k" "card (dom (abs d)) + length kvs \<le> cap d"
  shows "\<exists>d'. put_all d kvs = ret d' \<and> ok d' \<and> abs d' = abs d ++ map_of (rev kvs) \<and> cap d' = cap d"
  using assms
proof (induction kvs arbitrary: d)
  case Nil
  then show ?case by simp
next
  case (Cons kv kvs)
  obtain k v where kv: "kv = (k, v)" by fastforce
  from Cons.prems kv have k: "is_cstring k" "card (dom (abs d)) < cap d" by auto
  from put_room [OF Cons.prems(1) k(1), of v] k(2) obtain d1 where
    d1: "put d (Some k) v = ret (0, d1)" "ok d1" "abs d1 = (abs d)(k \<mapsto> v)" "cap d1 = cap d" by blast
  have "card (dom (abs d1)) \<le> Suc (card (dom (abs d)))"
    using d1(3) dom_finite [OF Cons.prems(1)] by (simp add: card_insert_if)
  with Cons.prems d1 have "card (dom (abs d1)) + length kvs \<le> cap d1" by simp
  with Cons.IH [OF d1(2)] Cons.prems(2) obtain d2 where
    "put_all d1 kvs = ret d2" "ok d2" "abs d2 = abs d1 ++ map_of (rev kvs)" "cap d2 = cap d1" by auto
  with d1 kv show ?case by (auto simp: map_add_upd_left map_add_def fun_eq_iff split: option.splits)
qed

end


lemma card_dom_map_of: "distinct (map fst kvs) \<Longrightarrow> card (dom (map_of kvs)) = length kvs"
  by (metis distinct_card dom_map_of_conv_image_fst length_map list.set_map)

interpretation dict_store: bounded_store setTuple getTuple dict_map dsize dict_ok
proof unfold_locales
  fix d :: "'a dict" and k :: string and v :: "'a option"
  assume d: "dict_ok d"
  then obtain kvs where kvs: "d = dict_of (dsize d) kvs" "good_pairs (dsize d) kvs"
    by (rule dict_ok_cases)
  have c: "card (dom (dict_map d)) = length kvs"
    using kvs card_dom_map_of [of kvs] by (metis contents_dict_of dict_map_def good_pairs_def)
  have m: "dict_map d = map_of kvs" using kvs(1) by (metis contents_dict_of dict_map_def)
  show "finite (dom (dict_map d))" by (simp add: m finite_dom_map_of)
  assume k: "is_cstring k"
  show "getTuple d (Some k) = ret (dict_map d k)"
    using getTuple_dict_of [OF kvs(2) k] kvs(1) m by simp
  note st = setTuple_dict_of [OF kvs(2) k, of v, folded kvs(1)]
  { assume "k \<in> dom (dict_map d) \<or> card (dom (dict_map d)) < dsize d"
    then have room: "map_of kvs k \<noteq> None \<or> length kvs < dsize d" using m c by auto
    have "dict_ok (dict_of (dsize d) (AList.update k v kvs))"
      using good_pairs_update [OF kvs(2) k room] by simp
    moreover have "dict_map (dict_of (dsize d) (AList.update k v kvs)) = (dict_map d)(k \<mapsto> v)"
      by (simp add: dict_map_def m [unfolded dict_map_def] update_conv')
    ultimately show "\<exists>d'. setTuple d (Some k) v = ret (0, d') \<and> dict_ok d' \<and>
        dict_map d' = (dict_map d)(k \<mapsto> v) \<and> dsize d' = dsize d"
      using st room by auto }
  { assume "\<not> (k \<in> dom (dict_map d) \<or> card (dom (dict_map d)) < dsize d)"
    then show "setTuple d (Some k) v = ret (- 1, d)" using st m c kvs(1) by auto }
qed

lemma initDict_dict_of: "initDict True True True n = ret (dict_of n [])"
  by (simp add: initDict_def dict_of_def)

lemma dict_map_dict_of [simp]: "dict_map (dict_of n kvs) = map_of kvs"
  by (simp add: dict_map_def)

lemma dict_of_Nil_ok [simp]: "dict_ok (dict_of n []) \<longleftrightarrow> n < 2 ^ 31"
  by (simp add: good_pairs_def)


section \<open>Every run of operations stays inside the arrays\<close>

text \<open>
  Removal leaves holes, after which a dictionary no longer stands for a map; what every operation
  keeps is weaker: the array has \<^verbatim>\<open>size\<close> cells, no cell is NULL, and \<^verbatim>\<open>counter\<close> is the number of
  cells with a key. It is enough for every access to stay inside the array.
\<close>

definition keyed :: "'v tuple option \<Rightarrow> bool" where
  "keyed e = (case e of None \<Rightarrow> False | Some t \<Rightarrow> tkey t \<noteq> None)"

definition dict_wf :: "'v dict \<Rightarrow> bool" where
  "dict_wf d \<longleftrightarrow> length (entries d) = dsize d \<and> None \<notin> set (entries d) \<and> dsize d < 2 ^ 31 \<and>
     counter d = length (filter keyed (entries d))"

inductive dict_step :: "'v dict \<Rightarrow> 'v dict \<Rightarrow> bool" where
  step_set: "setTuple d (Some k) v = ret (st, d') \<Longrightarrow> dict_step d d'"
| step_remove: "removeTuple d (Some k) = ret (st, d') \<Longrightarrow> dict_step d d'"

inductive dict_reachable :: "nat \<Rightarrow> 'v dict \<Rightarrow> bool" where
  reach_init: "initDict a b c n = ret d \<Longrightarrow> dict_reachable n d"
| reach_step: "dict_reachable n d \<Longrightarrow> dict_step d d' \<Longrightarrow> dict_reachable n d'"

inductive_cases dict_stepE: "dict_step d d'"

lemma entry_at_wf:
  assumes "dict_wf d" "i < dsize d"
  obtains t where "entry_at (entries d) (int i) = ret t" "entries d ! i = Some t"
proof -
  have i: "i < length (entries d)" using assms by (simp add: dict_wf_def)
  then have "entries d ! i \<noteq> None" using assms(1) by (metis dict_wf_def nth_mem)
  then obtain t where "entries d ! i = Some t" by blast
  with i that show ?thesis by (simp add: entry_at_def)
qed

lemma counter_le_size: "dict_wf d \<Longrightarrow> counter d \<le> dsize d"
  by (metis dict_wf_def length_filter_le)

lemma findKey_loop_wf:
  assumes "dict_wf d" "\<forall>i \<in> set is. i < dsize d"
  shows "\<exists>r. findKey_loop (entries d) k is = ret r \<and>
    (r = - 1 \<or> (\<exists>i < dsize d. r = int i \<and> keyed (entries d ! i)))"
  using assms(2)
proof (induction "is")
  case (Cons i js)
  then obtain t where t: "entry_at (entries d) (int i) = ret t" "entries d ! i = Some t"
    using entry_at_wf [OF assms(1), of i] by auto
  have "i < 2 ^ 31" using Cons.prems assms(1) by (auto simp: dict_wf_def)
  then have "int_of_unsigned i = int i" by (simp add: int_of_unsigned_def)
  moreover have "key_matches (tkey t) k \<Longrightarrow> keyed (entries d ! i)"
    by (auto simp: key_matches_def keyed_def t split: option.splits)
  ultimately show ?case using Cons by (auto simp: t)
qed simp

lemma findKey_wf:
  assumes "dict_wf d"
  obtains "findKey d k = ret (- 1)"
  | i where "findKey d k = ret (int i)" "i < dsize d" "keyed (entries d ! i)"
  using findKey_loop_wf [OF assms, of "[0..<counter d]" k] counter_le_size [OF assms]
  by (auto simp: findKey_def)

lemma first_null_less:
  assumes "None \<notin> set es" "length (filter keyed es) < length es"
  shows "first_null es < length es \<and> \<not> keyed (es ! first_null es)"
  using assms by (induction es rule: first_null.induct) (auto simp: keyed_def)

lemma keyed_count_update:
  assumes "i < length es"
  shows "length (filter keyed (es[i := e])) + (if keyed (es ! i) then 1 else 0) =
    length (filter keyed es) + (if keyed e then 1 else 0)"
  using assms
proof (induction es arbitrary: i)
  case (Cons x es)
  then show ?case by (cases i) auto
qed simp

lemma dict_wf_update:
  assumes "dict_wf d" "i < dsize d" "keyed (Some t) = keyed (entries d ! i)"
  shows "dict_wf (d\<lparr>entries := (entries d)[i := Some t]\<rparr>)"
  using assms keyed_count_update [of i "entries d" "Some t"]
  by (auto simp: dict_wf_def dest: set_update_subset_insert [THEN subsetD] split: if_splits)

lemma setTuple_wf:
  assumes "dict_wf d"
  shows "\<exists>st d'. setTuple d (Some k) v = ret (st, d') \<and> dict_wf d' \<and> dsize d' = dsize d"
  using assms
proof (cases rule: findKey_wf [where k = "Some k", case_names absent found])
  case absent
  show ?thesis
  proof (cases "counter d < dsize d")
    case True
    let ?j = "first_null (entries d)"
    have j: "?j < dsize d" "\<not> keyed (entries d ! ?j)"
      using first_null_less [of "entries d"] True assms by (auto simp: dict_wf_def)
    obtain t where t: "entry_at (entries d) (int ?j) = ret t" "entries d ! ?j = Some t"
      by (rule entry_at_wf [OF assms j(1)])
    show ?thesis
      using absent True j assms keyed_count_update [of ?j "entries d" "Some (t\<lparr>tkey := Some k, tval := v\<rparr>)"]
      by (auto simp: setTuple_def t Let_def dict_wf_def keyed_def
          dest: set_update_subset_insert [THEN subsetD])
  next
    case False
    with absent assms show ?thesis by (simp add: setTuple_def)
  qed
next
  case (found i)
  obtain t where t: "entry_at (entries d) (int i) = ret t" "entries d ! i = Some t"
    by (rule entry_at_wf [OF assms found(2)])
  have "keyed (Some (t\<lparr>tval := v\<rparr>)) = keyed (entries d ! i)" by (simp add: keyed_def t)
  from dict_wf_update [OF assms found(2) this] found(1) t show ?thesis
    by (simp add: setTuple_def)
qed

lemma removeTuple_wf:
  assumes "dict_wf d"
  shows "\<exists>st d'. removeTuple d k = ret (st, d') \<and> dict_wf d' \<and> dsize d' = dsize d"
  using assms
proof (cases rule: findKey_wf [where k = k, case_names absent found])
  case absent
  with assms show ?thesis by (simp add: removeTuple_def)
next
  case (found i)
  obtain t where t: "entry_at (entries d) (int i) = ret t" "entries d ! i = Some t"
    by (rule entry_at_wf [OF assms found(2)])
  show ?thesis
    using found t assms keyed_count_update [of i "entries d" "Some (t\<lparr>tkey := None, tval := None\<rparr>)"]
    by (auto simp: removeTuple_def dict_wf_def keyed_def dest: set_update_subset_insert [THEN subsetD])
qed

lemma initDict_wf: "n < 2 ^ 31 \<Longrightarrow> initDict a b c n = ret d \<Longrightarrow> dict_wf d \<and> dsize d = n"
  by (auto simp: initDict_def dict_wf_def keyed_def EmptyTuple_def ret_def halt_def seq_emit split: if_splits)

lemma dict_step_wf: "dict_step d d' \<Longrightarrow> dict_wf d \<Longrightarrow> dict_wf d' \<and> dsize d' = dsize d"
  using setTuple_wf [of d] removeTuple_wf [of d] by (auto elim!: dict_stepE) (metis ret_inject prod.inject)+

lemma dict_reachable_wf:
  assumes "dict_reachable n d" "n < 2 ^ 31"
  shows "dict_wf d \<and> dsize d = n"
  using assms
proof (induction rule: dict_reachable.induct)
  case (reach_init a b c n d)
  then show ?case using initDict_wf by blast
next
  case (reach_step n d d')
  then show ?case using dict_step_wf by metis
qed


lemma getTuple_wf:
  assumes "dict_wf d"
  shows "\<exists>r. getTuple d k = ret r"
  using assms
proof (cases rule: findKey_wf [where k = k, case_names absent found])
  case (found i)
  obtain t where "entry_at (entries d) (int i) = ret t" by (rule entry_at_wf [OF assms found(2)])
  with found show ?thesis by (simp add: getTuple_def)
qed (simp add: getTuple_def)

lemma getIndex_wf:
  assumes "dict_wf d"
  shows "\<exists>r. getIndex d i = ret r"
proof (cases "i < counter d")
  case True
  then have "i < dsize d" using counter_le_size [OF assms] by simp
  then obtain t where "entry_at (entries d) (int i) = ret t" by (rule entry_at_wf [OF assms])
  with True show ?thesis by (simp add: getIndex_def)
qed (simp add: getIndex_def)

lemma findKey_loop_absent:
  "\<forall>i \<in> set js. i < length es \<and> (\<exists>t. es ! i = Some t \<and> \<not> key_matches (tkey t) chk) \<Longrightarrow>
    findKey_loop es chk js = ret (- 1)"
  by (induction js) (auto simp: entry_at_def)

lemma key_index_nth:
  "distinct (map fst kvs) \<Longrightarrow> i < length kvs \<Longrightarrow> fst (kvs ! i) = k \<Longrightarrow> key_index k kvs = Some i"
proof (induction kvs arbitrary: i)
  case (Cons kv kvs)
  then show ?case by (cases kv; cases i) (auto simp: image_iff dest: nth_mem)
qed simp

text \<open>Removing the key stored last gives back the dictionary without it.\<close>

lemma removeTuple_snoc:
  assumes "good_pairs n (kvs @ [(k, v)])"
  shows "removeTuple (dict_of n (kvs @ [(k, v)])) (Some k) = ret (0, dict_of n kvs)"
proof -
  have k: "is_cstring k" "key_index k (kvs @ [(k, v)]) = Some (length kvs)"
    using assms by (auto simp: good_pairs_def intro!: key_index_nth)
  have e: "(entries (dict_of n (kvs @ [(k, v)])))[length kvs := Some EmptyTuple] = entries (dict_of n kvs)"
    using assms by (simp add: dict_of_def good_pairs_def list_update_append Suc_diff_Suc [symmetric])
  show ?thesis using removeTuple_dict_of [OF assms k(1)] k(2) e by (simp add: dict_of_def)
qed

lemma dict_ok_contents: "dict_ok d \<Longrightarrow> contents d = kvs \<Longrightarrow> d = dict_of (dsize d) kvs \<and> good_pairs (dsize d) kvs"
  using dict_ok_def dict_ok_dict_of by metis

lemma destroy_loop_counter: "i \<le> c \<Longrightarrow> snd (destroy_loop es c i) = i + (c - i) div 2"
proof (induction es c i rule: destroy_loop.induct)
  case (1 es c i)
  show ?case
  proof (cases "i < c")
    case True
    then have "i + 1 \<le> c - 1 \<or> c = i + 1" by arith
    then show ?thesis
    proof
      assume le: "i + 1 \<le> c - 1"
      then have "snd (destroy_loop es c i) = i + 1 + (c - 1 - (i + 1)) div 2"
        using "1.IH" [OF True] True by (simp add: destroy_loop.simps [of es c i])
      with le show ?thesis by (simp add: Suc_diff_Suc div_if [of "c - i" 2])
    next
      assume "c = i + 1"
      then show ?thesis by (simp add: destroy_loop.simps [of es "Suc i" i] destroy_loop.simps [of "es[i := None]" i])
    qed
  next
    case False
    with "1.prems" have "c = i" by simp
    then show ?thesis by (simp add: destroy_loop.simps [of es i i])
  qed
qed


section \<open>Correctness\<close>

text \<open>C12. While the key is known or a slot is free, \<^verbatim>\<open>setTuple\<close> answers 0 and updates the map the
  dictionary stands for; otherwise it answers -1 and changes nothing.\<close>

theorem setTuple_refines_map:
  assumes "dict_ok d" "is_cstring k"
  shows "if k \<in> dom (dict_map d) \<or> card (dom (dict_map d)) < dsize d
    then \<exists>d'. setTuple d (Some k) v = ret (0, d') \<and> dict_ok d' \<and>
      dict_map d' = (dict_map d)(k \<mapsto> v) \<and> dsize d' = dsize d
    else setTuple d (Some k) v = ret (- 1, d)"
  using dict_store.put_room [OF assms] dict_store.put_full [OF assms] by simp

theorem setTuple_refines_map_witness:
  "if ''b'' \<in> dom (dict_map (dict_of 1 [(''a'', Some ''1'')])) \<or>
      card (dom (dict_map (dict_of 1 [(''a'', Some ''1'')]))) < dsize (dict_of 1 [(''a'', Some ''1'')])
    then \<exists>d'. setTuple (dict_of 1 [(''a'', Some ''1'')]) (Some ''b'') (Some ''2'') = ret (0, d') \<and> dict_ok d' \<and>
      dict_map d' = (dict_map (dict_of 1 [(''a'', Some ''1'')]))(''b'' \<mapsto> Some ''2'') \<and>
      dsize d' = dsize (dict_of 1 [(''a'', Some ''1'')])
    else setTuple (dict_of 1 [(''a'', Some ''1'')]) (Some ''b'') (Some ''2'') = ret (- 1, dict_of 1 [(''a'', Some ''1'')])"
  by (rule setTuple_refines_map) (simp_all add: good_pairs_def is_cstring_def)

text \<open>After a successful \<^verbatim>\<open>setTuple\<close>, \<^verbatim>\<open>getTuple\<close> returns the stored value for that key and what it
  returned before for every other key.\<close>

theorem setTuple_getTuple:
  assumes "dict_ok d" "is_cstring k" "is_cstring k'" "setTuple d (Some k) v = ret (0, d')"
  shows "getTuple d' (Some k') = (if k' = k then ret (Some v) else getTuple d (Some k'))"
proof -
  have "dict_ok d' \<and> dict_map d' = (dict_map d)(k \<mapsto> v)"
    using assms(4) dict_store.put_room [OF assms(1,2), of v] dict_store.put_full [OF assms(1,2), of v]
    by (cases "k \<in> dom (dict_map d) \<or> card (dom (dict_map d)) < dsize d") auto
  then show ?thesis by (simp add: dict_store.get_abs assms(1,3))
qed

theorem setTuple_getTuple_witness:
  "getTuple (dict_of 2 [(''a'', Some ''1''), (''b'', Some ''2'')]) (Some ''a'') =
    (if ''a'' = ''b'' then ret (Some (Some ''2'')) else getTuple (dict_of 2 [(''a'', Some ''1'')]) (Some ''a''))"
  by (rule setTuple_getTuple [where d = "dict_of 2 [(''a'', Some ''1'')]" and v = "Some ''2''"])
    (simp_all add: good_pairs_def is_cstring_def setTuple_dict_of)

text \<open>C24. Whatever sequence of stores and removals a dictionary has gone through since \<^verbatim>\<open>initDict\<close>, every
  further operation returns: no index leaves the arrays and no NULL entry is dereferenced; and the
  counter is the number of keys in the table.\<close>

theorem dict_operations_safe:
  assumes "dict_reachable n d" "n < 2 ^ 31"
  shows "(\<exists>st d'. setTuple d (Some k) v = ret (st, d')) \<and> (\<exists>st d'. removeTuple d (Some k) = ret (st, d')) \<and>
    (\<exists>r. getTuple d (Some k) = ret r) \<and> (\<exists>r. getIndex d i = ret r) \<and>
    counter d = length (filter keyed (entries d)) \<and> length (entries d) = n"
proof -
  have wf: "dict_wf d" "dsize d = n" using dict_reachable_wf [OF assms] by auto
  then show ?thesis
    using setTuple_wf [OF wf(1)] removeTuple_wf [OF wf(1)] getTuple_wf [OF wf(1)] getIndex_wf [OF wf(1)]
    by (metis dict_wf_def)
qed

lemma dict_reachable_one:
  "dict_reachable 1 (dict_of 1 [(''a'', Some ''1'')])"
  by (rule reach_step [OF reach_init [OF initDict_dict_of] step_set [where k = "''a''" and v = "Some ''1''" and st = 0]])
    (simp add: setTuple_dict_of good_pairs_def is_cstring_def)

theorem dict_operations_safe_witness:
  "(\<exists>st d'. setTuple (dict_of 1 [(''a'', Some ''1'')]) (Some ''k'') None = ret (st, d')) \<and>
   (\<exists>st d'. removeTuple (dict_of 1 [(''a'', Some ''1'')]) (Some ''k'') = ret (st, d')) \<and>
   (\<exists>r. getTuple (dict_of 1 [(''a'', Some ''1'')]) (Some ''k'') = ret r) \<and>
   (\<exists>r. getIndex (dict_of 1 [(''a'', Some ''1'')]) 0 = ret r) \<and>
   counter (dict_of 1 [(''a'', Some ''1'')]) = length (filter keyed (entries (dict_of 1 [(''a'', Some ''1'')]))) \<and>
   length (entries (dict_of 1 [(''a'', Some ''1'')])) = 1"
  by (rule dict_operations_safe [OF dict_reachable_one]) simp

text \<open>Removing the key that was stored last deletes exactly that key.\<close>

theorem removeTuple_last:
  assumes "dict_ok d" "contents d = kvs @ [(k, v)]"
  shows "\<exists>d'. removeTuple d (Some k) = ret (0, d') \<and> dict_ok d' \<and> dict_map d' = (dict_map d)(k := None)"
proof -
  have d: "d = dict_of (dsize d) (kvs @ [(k, v)])" and g: "good_pairs (dsize d) (kvs @ [(k, v)])"
    using dict_ok_contents [OF assms] by auto
  then have fresh: "k \<notin> fst ` set kvs" by (auto simp: good_pairs_def)
  have "removeTuple d (Some k) = ret (0, dict_of (dsize d) kvs)" using removeTuple_snoc [OF g] d by simp
  moreover have "good_pairs (dsize d) kvs" using g by (simp add: good_pairs_def)
  moreover have "map_of kvs = (map_of (kvs @ [(k, v)]))(k := None)"
    using fresh by (auto simp: fun_eq_iff map_add_def map_of_eq_None_iff split: option.splits)
  ultimately show ?thesis using assms(2) by (auto simp: dict_map_def)
qed

theorem removeTuple_last_witness:
  "\<exists>d'. removeTuple (dict_of 3 [(''a'', Some ''1''), (''b'', Some ''2'')]) (Some ''b'') = ret (0, d') \<and> dict_ok d' \<and>
     dict_map d' = (dict_map (dict_of 3 [(''a'', Some ''1''), (''b'', Some ''2'')]))(''b'' := None)"
  by (rule removeTuple_last [where kvs = "[(''a'', Some ''1'')]" and v = "Some ''2''"])
    (simp_all add: good_pairs_def is_cstring_def)

text \<open>C40. Removing any other key also makes the key stored last unreachable: \<^verbatim>\<open>removeTuple\<close> lowers the
  counter that bounds every search and does not close the hole.\<close>

theorem removeTuple_loses_last:
  assumes "dict_ok d" "contents d = xs @ (k, v) # ys @ [(k2, v2)]"
  shows "\<exists>d'. removeTuple d (Some k) = ret (0, d') \<and> k2 \<noteq> k \<and> dict_map d k2 = Some v2 \<and>
    getTuple d' (Some k2) = ret None"
proof -
  let ?kvs = "xs @ (k, v) # ys @ [(k2, v2)]"
  have d: "d = dict_of (dsize d) ?kvs" and g: "good_pairs (dsize d) ?kvs"
    using dict_ok_contents [OF assms] by auto
  have ki: "key_index k ?kvs = Some (length xs)"
    using g by (intro key_index_nth) (auto simp: good_pairs_def)
  have k: "is_cstring k" "is_cstring k2" "k2 \<noteq> k" using g by (auto simp: good_pairs_def)
  let ?es = "(entries (dict_of (dsize d) ?kvs))[length xs := Some EmptyTuple]"
  let ?d' = "(dict_of (dsize d) ?kvs)\<lparr>entries := ?es, counter := length ?kvs - 1\<rparr>"
  have "\<exists>t. ?es ! i = Some t \<and> \<not> key_matches (tkey t) (Some k2)" if i: "i < length ?kvs - 1" for i
  proof (cases "i = length xs")
    case False
    then have e: "?es ! i = slot (?kvs ! i)" using i by (simp add: dict_of_def nth_append)
    have "distinct (map fst (xs @ (k, v) # ys) @ [k2])" using g by (simp add: good_pairs_def)
    then have "k2 \<notin> fst ` set (xs @ (k, v) # ys)" by auto
    moreover have "?kvs ! i \<in> set (xs @ (k, v) # ys)"
      using i by (metis append.assoc append_Cons butlast_snoc length_butlast nth_butlast nth_mem)
    ultimately have "fst (?kvs ! i) \<noteq> k2" by (metis imageI)
    moreover have "?kvs ! i \<in> set ?kvs" using i by (intro nth_mem) simp
    then have "is_cstring (fst (?kvs ! i))" using g by (simp only: good_pairs_def) blast
    ultimately show ?thesis using e k(2) by (simp add: slot_def key_matches_def strcmp_eq_0)
  qed (simp add: dict_of_def EmptyTuple_def key_matches_def)
  then have "findKey ?d' (Some k2) = ret (- 1)"
    unfolding findKey_def by (intro findKey_loop_absent) (auto simp: dict_of_def)
  then have "getTuple ?d' (Some k2) = ret None" by (simp add: getTuple_def)
  moreover have "removeTuple d (Some k) = ret (0, ?d')"
    using removeTuple_dict_of [OF g k(1)] ki d by simp
  moreover have "dict_map d k2 = Some v2"
    unfolding dict_map_def assms(2)
    by (rule map_of_is_SomeI) (use g in \<open>simp_all only: good_pairs_def\<close>, simp)
  ultimately show ?thesis using k(3) by blast
qed

theorem removeTuple_loses_last_witness:
  "\<exists>d'. removeTuple (dict_of 3 [(''a'', Some ''1''), (''b'', Some ''2'')]) (Some ''a'') = ret (0, d') \<and> ''b'' \<noteq> ''a'' \<and>
     dict_map (dict_of 3 [(''a'', Some ''1''), (''b'', Some ''2'')]) ''b'' = Some (Some ''2'') \<and>
     getTuple d' (Some ''b'') = ret None"
  by (rule removeTuple_loses_last [where xs = "[]" and v = "Some ''1''" and ys = "[]"])
    (simp_all add: good_pairs_def is_cstring_def)


text \<open>\<^verbatim>\<open>destroyDict\<close> frees the entries, the table and the dictionary, once each and in that order; the
  loop before it runs over the first half of the entries only, since it lowers the counter it is
  bounded by.\<close>

theorem destroyDict_frees:
  "\<exists>es. destroyDict d = ([Call ''free(d->entries)'', Call ''free(d->table)'', Call ''free(d)''],
     Inr (es, counter d div 2))"
  using destroy_loop_counter [of 0 "counter d" "entries d"]
  by (cases "destroy_loop (entries d) (counter d) 0") (simp add: destroyDict_def)

end
