(* ===== verification/StringOps.thy ===== *)
theory StringOps
  imports C_Prelude
begin

unbundle bit_operations_syntax

text \<open>
  \<^verbatim>\<open>src/util/stringops.h\<close>: cutting a string at a delimiter, reading a file, integers to text,
  reversal in place and joining paths.

  Buffers are modelled by what has been written to them; each write is checked against the size the
  source allocates and logged when it falls outside (\<open>guard_bounds\<close>). An array of strings
  (\<^verbatim>\<open>char **\<close>) is the list of cells written so far with the number of cells allocated.
\<close>

section \<open>Arrays of strings\<close>

record carr =
  cells :: "cptr list"
  acap :: nat

text \<open>Reading cell \<open>i\<close>: a cell past the allocation is a fault, a cell never written holds no pointer.\<close>

definition arr_get :: "string \<Rightarrow> carr \<Rightarrow> nat \<Rightarrow> cptr run" where
  "arr_get name a i =
     (if i < length (cells a) then seq (guard_bounds name (acap a) i) (ret (cells a ! i))
      else halt (Crash (UninitRead name)))"


section \<open>Tokenizing\<close>

text \<open>
  The first loop of \<^verbatim>\<open>strsplit\<close> counts the delimiters. With an empty delimiter \<^verbatim>\<open>strstr\<close> returns
  its argument, the pointer never moves and the loop never ends.
\<close>

function strsplit_count :: "string \<Rightarrow> string \<Rightarrow> nat \<Rightarrow> nat run" where
  "strsplit_count tmp delims count =
     (if delims = [] then halt Hang
      else case strstr tmp delims of
        None \<Rightarrow> ret count
      | Some n \<Rightarrow> strsplit_count (drop (n + length delims) tmp) delims (count + 1))"
  by pat_completeness auto
termination
proof (relation "measure (\<lambda>(tmp, delims, count). length tmp)")
  fix tmp delims n and count :: nat
  assume "delims \<noteq> []" "strstr tmp delims = Some n"
  then show "((drop (n + length delims) tmp, delims, count + 1), tmp, delims, count)
      \<in> measure (\<lambda>(tmp, delims, count). length tmp)"
    using strstr_Some [of tmp delims n] by (cases delims) auto
qed simp

declare strsplit_count.simps [simp del]

text \<open>
  The second loop copies each token into the buffer \<^verbatim>\<open>save\<close> of \<^verbatim>\<open>strlen(str)\<close> bytes, terminates
  it there (\<^verbatim>\<open>save[tok - tmp] = 0\<close>, the highest byte written) and appends a copy to \<^verbatim>\<open>result\<close>,
  which has \<^verbatim>\<open>count\<close> cells.
\<close>

function strsplit_loop :: "nat \<Rightarrow> nat \<Rightarrow> string \<Rightarrow> string \<Rightarrow> cptr list \<Rightarrow> (cptr list \<times> string) run" where
  "strsplit_loop savecap count delims tmp res =
     (if delims = [] then halt Hang
      else case strstr tmp delims of
        None \<Rightarrow> ret (res, tmp)
      | Some n \<Rightarrow>
          seq (guard_bounds ''save'' savecap n)
          (seq (guard_bounds ''result'' count (length res))
           (strsplit_loop savecap count delims (drop (n + length delims) tmp)
              (res @ [Some (take n tmp)]))))"
  by pat_completeness auto
termination
proof (relation "measure (\<lambda>(savecap, count, delims, tmp, res). length tmp)")
  fix savecap count :: nat and delims tmp n and res :: "cptr list"
  assume "delims \<noteq> []" "strstr tmp delims = Some n"
  then show "((savecap, count, delims, drop (n + length delims) tmp, res @ [Some (take n tmp)]),
      savecap, count, delims, tmp, res) \<in> measure (\<lambda>(savecap, count, delims, tmp, res). length tmp)"
    using strstr_Some [of tmp delims n] by (cases delims) auto
qed simp

declare strsplit_loop.simps [simp del]

text \<open>The flags say whether the allocations of \<^verbatim>\<open>save\<close> and \<^verbatim>\<open>result\<close> succeed; the result is the
  returned pointer and what \<^verbatim>\<open>*len\<close> is set to.\<close>

definition strsplit :: "bool \<Rightarrow> bool \<Rightarrow> cptr \<Rightarrow> string \<Rightarrow> (carr option \<times> nat) run" where
  "strsplit alloc_save alloc_result str delims =
     bind (deref ''str'' str) (\<lambda>s.
     bind (strsplit_count s delims 0) (\<lambda>c.
       let count = c + 1 in
       if alloc_result \<and> alloc_save then
         bind (strsplit_loop (length s) count delims s []) (\<lambda>(res, tmp).
           let res' = (if tmp \<noteq> [] then res @ [Some tmp] else res) in
           seq (if tmp \<noteq> [] then guard_bounds ''result'' count (length res) else ret ())
           (seq (guard_bounds ''result'' count (length res'))
            (ret (Some \<lparr>cells = res' @ [None], acap = count\<rparr>, count))))
       else ret (if alloc_result then Some \<lparr>cells = [], acap = count\<rparr> else None, 0)))"


section \<open>Integers to text\<close>

definition dig :: string where
  "dig = ''0123456789abcdefghijklmnopqrstuvwxyz''"

definition itoa_digit :: "nat \<Rightarrow> char run" where
  "itoa_digit i =
     (if i < 37 then ret ((dig @ [NUL]) ! i) else halt (Crash (BadPointer ''dig'')))"

text \<open>
  The \<^verbatim>\<open>do ... while (v)\<close> loop on the unsigned value; \<^verbatim>\<open>str\<close> has \<^verbatim>\<open>sizeof(int)\<close>, that is four,
  bytes. In radix 1 the division never changes \<^verbatim>\<open>v\<close>.
\<close>

function itoa_loop :: "nat \<Rightarrow> nat \<Rightarrow> string \<Rightarrow> string run" where
  "itoa_loop r v str =
     bind (itoa_digit (v mod r)) (\<lambda>c.
       seq (guard_bounds ''str'' 4 (length str))
       (if v div r = 0 then ret (str @ [c])
        else if r = 1 then halt Hang
        else itoa_loop r (v div r) (str @ [c])))"
  by pat_completeness auto
termination
proof (relation "measure (\<lambda>(r, v, str). v)")
  fix r v :: nat and str x
  assume "v div r \<noteq> 0" "r \<noteq> 1"
  then have "v div r < v" by (cases "r = 0") (auto intro!: div_less_dividend gr0I)
  then show "((r, v div r, str @ [x]), r, v, str) \<in> measure (\<lambda>(r, v, str). v)" by simp
qed simp

declare itoa_loop.simps [simp del]

text \<open>The loop \<^verbatim>\<open>for (p = str, q = p + (n-1); p < q; ++p, --q)\<close> that swaps the ends.\<close>

function swap_ends :: "string \<Rightarrow> nat \<Rightarrow> nat \<Rightarrow> string" where
  "swap_ends xs p q =
     (if p < q then swap_ends (xs[p := xs ! q, q := xs ! p]) (p + 1) (q - 1) else xs)"
  by pat_completeness auto
termination
  by (relation "measure (\<lambda>(xs, p, q). q - p)") auto

declare swap_ends.simps [simp del]

text \<open>\<^verbatim>\<open>value\<close> and \<^verbatim>\<open>radix\<close> are 32-bit integers; the radix is converted to unsigned for \<^verbatim>\<open>v % radix\<close>.\<close>

definition itoa :: "int \<Rightarrow> int \<Rightarrow> string run" where
  "itoa value radix =
     (let neg = (radix = 10 \<and> value < 0);
          v = nat ((if neg then - value else value) mod 2 ^ 32);
          r = nat (radix mod 2 ^ 32)
      in if r = 0 then halt (Crash (DivByZero ''radix''))
      else seq (if neg \<and> value = - (2 ^ 31) then emit (Fault (SignedOverflow ''-value'')) else ret ())
       (bind (itoa_loop r v []) (\<lambda>ds.
         let str = (if neg then ds @ [CHR ''-''] else ds) in
         seq (if neg then guard_bounds ''str'' 4 (length ds) else ret ())
         (seq (guard_bounds ''str'' 4 (length str))
          (ret (swap_ends str 0 (length str - 1)))))))"


section \<open>Reversal in place\<close>

definition char_xor :: "char \<Rightarrow> char \<Rightarrow> char" where
  "char_xor a b = char_of ((of_char a :: nat) XOR of_char b)"

text \<open>\<^verbatim>\<open>XOR_SWAP\<close> on two cells: \<^verbatim>\<open>a ^= b; b ^= a; a ^= b\<close>.\<close>

definition XOR_SWAP :: "string \<Rightarrow> nat \<Rightarrow> nat \<Rightarrow> string" where
  "XOR_SWAP xs i j =
     (let xs1 = xs[i := char_xor (xs ! i) (xs ! j)];
          xs2 = xs1[j := char_xor (xs1 ! j) (xs1 ! i)]
      in xs2[i := char_xor (xs2 ! i) (xs2 ! j)])"

function strReverse_loop :: "string \<Rightarrow> nat \<Rightarrow> nat \<Rightarrow> string run" where
  "strReverse_loop str start stop =
     (if start < stop then
        if stop < length str then strReverse_loop (XOR_SWAP str start stop) (start + 1) (stop - 1)
        else halt (Crash (BadPointer ''str''))
      else ret str)"
  by pat_completeness auto
termination
  by (relation "measure (\<lambda>(str, start, stop). stop - start)") auto

declare strReverse_loop.simps [simp del]

text \<open>\<^verbatim>\<open>end = strlen(str) - 1\<close> is a \<^verbatim>\<open>size_t\<close>: it wraps for the empty string.\<close>

definition strReverse :: "cptr \<Rightarrow> string run" where
  "strReverse str =
     bind (deref ''str'' str) (\<lambda>s. strReverse_loop s 0 ((length s + 2 ^ 64 - 1) mod 2 ^ 64))"


section \<open>Paths\<close>

text \<open>
  \<^verbatim>\<open>last_char\<close> is moved to the terminating NUL before it is compared with the separator, so the
  comparison is between the empty string and \<^verbatim>\<open>"/"\<close>. The result is what the destination holds; \<open>dcap\<close>
  is its size, and the terminating NUL is the last byte written.
\<close>

definition joinPath :: "nat \<Rightarrow> cptr \<Rightarrow> cptr \<Rightarrow> string run" where
  "joinPath dcap path1 path2 =
     bind
       (if path1 = None \<and> path2 = None then ret []
        else if path2 = None \<or> path2 = Some [] then deref ''path1'' path1
        else if path1 = None \<or> path1 = Some [] then deref ''path2'' path2
        else bind (deref ''path1'' path1) (\<lambda>p1. bind (deref ''path2'' path2) (\<lambda>p2.
          let directory_separator = ''/'';
              last_char = drop (length p1) p1;
              append_directory_separator = (strcmp last_char directory_separator \<noteq> 0)
          in ret (p1 @ (if append_directory_separator then directory_separator else []) @ p2))))
       (\<lambda>dest. seq (guard_bounds ''destination'' dcap (length dest)) (ret dest))"


section \<open>Reading a file\<close>

text \<open>What the calls on the file answer: whether it opens and seeks, the size \<^verbatim>\<open>ftell\<close> reports, the bytes
  \<^verbatim>\<open>fread\<close> delivers and the error flag after it.\<close>

record file_io =
  fopen_ok :: bool
  fseek_end_ok :: bool
  ftell_size :: int
  fseek_set_ok :: bool
  fread_data :: string
  ferror_set :: bool

definition readFile :: "(string \<Rightarrow> file_io) \<Rightarrow> string \<Rightarrow> cptr run" where
  "readFile fs path =
     (let f = fs path in
      if fopen_ok f then
        if fseek_end_ok f then
          if ftell_size f = - 1 then bind (itoa (- 1) 10) (\<lambda>s. ret (Some s))
          else if \<not> fseek_set_ok f then bind (itoa (- 1) 10) (\<lambda>s. ret (Some s))
          else if ferror_set f then bind (itoa (- 1) 10) (\<lambda>s. ret (Some s))
          else
            seq (guard_bounds ''source'' (nat (ftell_size f) + 1) (length (fread_data f)))
            (seq (emit (Call ''fclose'')) (ret (Some (cstr_of (fread_data f)))))
        else seq (emit (Call ''fclose'')) (ret None)
      else ret None)"



section \<open>What the tokenizer computes\<close>

text \<open>The tokens: the pieces between the delimiters, without a last empty one.\<close>

definition tokens_of :: "string \<Rightarrow> string \<Rightarrow> string list" where
  "tokens_of d s = (let ps = split_on d s in if last ps = [] then butlast ps else ps)"

lemma strsplit_count_eq:
  "delims \<noteq> [] \<Longrightarrow> strsplit_count tmp delims count = ret (count + (length (split_on delims tmp) - 1))"
proof (induction tmp delims count rule: strsplit_count.induct)
  case (1 tmp delims count)
  show ?case
  proof (cases "strstr tmp delims")
    case None
    with "1.prems" show ?thesis
      by (simp add: strsplit_count.simps [of tmp] split_on.simps [of delims tmp])
  next
    case (Some n)
    have "0 < length (split_on delims (drop (n + length delims) tmp))" by simp
    with "1.IH" [OF "1.prems" Some "1.prems"] "1.prems" Some show ?thesis
      by (simp add: strsplit_count.simps [of tmp] split_on.simps [of delims tmp])
  qed
qed

lemma strsplit_loop_eq:
  assumes "delims \<noteq> []" "length tmp \<le> savecap" "length res + length (split_on delims tmp) \<le> Suc count"
  shows "strsplit_loop savecap count delims tmp res =
    ret (res @ map Some (butlast (split_on delims tmp)), last (split_on delims tmp))"
  using assms
proof (induction savecap count delims tmp res rule: strsplit_loop.induct)
  case (1 savecap count delims tmp res)
  show ?case
  proof (cases "strstr tmp delims")
    case None
    with "1.prems" show ?thesis
      by (simp add: strsplit_loop.simps [of _ _ _ tmp] split_on.simps [of delims tmp])
  next
    case (Some n)
    let ?rest = "drop (n + length delims) tmp"
    have sp: "split_on delims tmp = take n tmp # split_on delims ?rest"
      using Some "1.prems"(1) by (simp add: split_on.simps [of delims tmp])
    have n: "n < savecap"
      using strstr_Some [OF Some] "1.prems"(1,2) by (cases delims) auto
    obtain q qs where "split_on delims ?rest = q # qs" by (meson list.exhaust split_on_not_Nil)
    with "1.prems"(3) sp have len: "length res < count"
      "length (res @ [Some (take n tmp)]) + length (split_on delims ?rest) \<le> Suc count" by simp_all
    have "length ?rest \<le> savecap" using "1.prems"(2) by simp
    with "1.IH" [OF "1.prems"(1) Some "1.prems"(1) _ len(2)]
    have "strsplit_loop savecap count delims ?rest (res @ [Some (take n tmp)]) =
      ret ((res @ [Some (take n tmp)]) @ map Some (butlast (split_on delims ?rest)), last (split_on delims ?rest))"
      by simp
    with "1.prems"(1) Some n len(1) sp show ?thesis
      by (simp add: strsplit_loop.simps [of _ _ _ tmp])
  qed
qed

lemma strsplit_eq:
  assumes "d \<noteq> []"
  shows "strsplit True True (Some s) d =
    (if last (split_on d s) = [] then [] else [Fault (OutOfBounds ''result'')],
     Inr (Some \<lparr>cells = map Some (tokens_of d s) @ [None], acap = length (split_on d s)\<rparr>,
          length (split_on d s)))"
proof -
  let ?ps = "split_on d s"
  have ne: "?ps \<noteq> []" by simp
  then obtain k where k: "length ?ps = Suc k" by (cases ?ps) auto
  have loop: "strsplit_loop (length s) (length ?ps) d s [] = ret (map Some (butlast ?ps), last ?ps)"
    using strsplit_loop_eq [OF assms, of s "length s" "[]" "length ?ps"] by simp
  have app: "map Some (butlast ?ps) @ [Some (last ?ps)] = map Some ?ps"
    using ne by (metis append_butlast_last_id list.simps(8,9) map_append)
  show ?thesis
    using k loop app
    by (auto simp: strsplit_def strsplit_count_eq assms Let_def tokens_of_def guard_bounds_def
        seq_emit run_simps) (auto simp: ret_def)
qed

lemma tokens_of_length: "length (tokens_of d s) \<le> length (split_on d s)"
  by (simp add: tokens_of_def Let_def)

lemma arr_get_in: "i < length (cells a) \<Longrightarrow> i < acap a \<Longrightarrow> arr_get name a i = ret (cells a ! i)"
  by (simp add: arr_get_def)


section \<open>What the swapping loops compute\<close>

lemma swap_ends_nth:
  assumes "q < length xs"
  shows "length (swap_ends xs p q) = length xs \<and>
    (\<forall>i < length xs. swap_ends xs p q ! i = (if p \<le> i \<and> i \<le> q then xs ! (p + q - i) else xs ! i))"
  using assms
proof (induction xs p q rule: swap_ends.induct)
  case (1 xs p q)
  show ?case
  proof (cases "p < q")
    case True
    let ?ys = "xs[p := xs ! q, q := xs ! p]"
    have len: "q - 1 < length ?ys" using "1.prems" by simp
    note IH = "1.IH" [OF True len]
    have step: "swap_ends xs p q = swap_ends ?ys (p + 1) (q - 1)"
      using True by (simp add: swap_ends.simps [of xs p q])
    show ?thesis
    proof (intro conjI allI impI)
      show "length (swap_ends xs p q) = length xs" using IH step by simp
      fix i assume i: "i < length xs"
      then have "swap_ends xs p q ! i = (if p + 1 \<le> i \<and> i \<le> q - 1 then ?ys ! (p + q - i) else ?ys ! i)"
        using IH step True by simp
      then show "swap_ends xs p q ! i = (if p \<le> i \<and> i \<le> q then xs ! (p + q - i) else xs ! i)"
        using True "1.prems" i by (cases "i = p"; cases "i = q") (auto simp: nth_list_update)
    qed
  next
    case False
    then show ?thesis by (simp add: swap_ends.simps [of xs p q]) (metis add_diff_cancel_left' le_antisym le_trans nat_le_linear not_less)
  qed
qed

lemma swap_ends_rev: "swap_ends xs 0 (length xs - 1) = rev xs"
proof (cases "xs = []")
  case True
  then show ?thesis by (simp add: swap_ends.simps)
next
  case False
  then have "length xs - 1 < length xs" by simp
  note n = swap_ends_nth [OF this, of 0]
  show ?thesis by (rule nth_equalityI) (use n in \<open>auto simp: rev_nth\<close>)
qed

lemma of_char_take_bit: "take_bit 8 (of_char c :: nat) = of_char c"
  by (simp add: take_bit_eq_mod)

lemma of_char_xor: "(of_char (char_xor a b) :: nat) = of_char a XOR of_char b"
proof -
  have "(of_char (char_xor a b) :: nat) = take_bit 8 (of_char a XOR of_char b)"
    by (simp add: char_xor_def take_bit_eq_mod)
  then show ?thesis by (simp add: take_bit_xor of_char_take_bit)
qed

lemma char_eq_of_char: "(of_char a :: nat) = of_char b \<Longrightarrow> a = b"
  by (metis char_of_char)

lemma nat_xor_cancel: "(x :: nat) XOR (x XOR y) = y"
  by (simp flip: xor.assoc)

lemma char_xor_cancel:
  "char_xor (char_xor a b) b = a" "char_xor b (char_xor a b) = a" "char_xor (char_xor a b) a = b"
  by (rule char_eq_of_char, simp add: of_char_xor xor.assoc xor.commute xor.left_commute nat_xor_cancel)+

lemma XOR_SWAP_swaps:
  assumes "i \<noteq> j" "i < length xs" "j < length xs"
  shows "XOR_SWAP xs i j = xs[i := xs ! j, j := xs ! i]"
  using assms
  by (simp add: XOR_SWAP_def Let_def nth_list_update char_xor_cancel list_update_swap [of i j])

lemma strReverse_loop_eq:
  "stop < length str \<Longrightarrow> strReverse_loop str start stop = ret (swap_ends str start stop)"
proof (induction str start stop rule: strReverse_loop.induct)
  case (1 str start stop)
  show ?case
  proof (cases "start < stop")
    case True
    with "1.prems" have x: "XOR_SWAP str start stop = str[start := str ! stop, stop := str ! start]"
      by (simp add: XOR_SWAP_swaps)
    then have "stop - 1 < length (XOR_SWAP str start stop)" using "1.prems" by simp
    from "1.IH" [OF True "1.prems" this] True "1.prems" x show ?thesis
      by (simp add: strReverse_loop.simps [of str start stop] swap_ends.simps [of str start stop])
  next
    case False
    then show ?thesis
      by (simp add: strReverse_loop.simps [of str start stop] swap_ends.simps [of str start stop])
  qed
qed


section \<open>What the digit loop computes\<close>

lemma dig_decimal: "n < 10 \<Longrightarrow> itoa_digit n = ret (char_of (n + 48))"
proof -
  assume "n < 10"
  then have "n = 0 \<or> n = 1 \<or> n = 2 \<or> n = 3 \<or> n = 4 \<or> n = 5 \<or> n = 6 \<or> n = 7 \<or> n = 8 \<or> n = 9" by arith
  then show ?thesis
    unfolding itoa_digit_def dig_def by (elim disjE) (simp_all add: nth_Cons' char_of_def bit_0)
qed

abbreviation str_overrun :: "nat \<Rightarrow> event list" where
  "str_overrun n \<equiv> replicate n (Fault (OutOfBounds ''str''))"

lemma itoa_loop_decimal:
  "itoa_loop 10 v str =
     (str_overrun ((length str + length (nat_digits v) - 4) - (length str - 4)), Inr (str @ rev (nat_digits v)))"
proof (induction v arbitrary: str rule: less_induct)
  case (less v)
  have d: "itoa_digit (v mod 10) = ret (char_of (v mod 10 + 48))" by (simp add: dig_decimal)
  show ?case
  proof (cases "v < 10")
    case True
    then show ?thesis
      using d by (simp add: itoa_loop.simps [of 10 v] nat_digits.simps [of v] guard_bounds_def run_simps)
        (simp add: ret_def)
  next
    case False
    then have "v div 10 < v" "v div 10 \<noteq> 0" by auto
    note IH = less.IH [OF this(1), of "str @ [char_of (v mod 10 + 48)]"]
    obtain k where k: "length (nat_digits (v div 10)) = Suc k" by (cases "nat_digits (v div 10)") auto
    from False \<open>v div 10 \<noteq> 0\<close> d IH k show ?thesis
      by (auto simp: itoa_loop.simps [of 10 v] nat_digits.simps [of v] guard_bounds_def run_simps not_less
          Suc_diff_le simp flip: replicate_Suc)
  qed
qed


definition dec_value :: "string \<Rightarrow> int" where
  "dec_value s =
     (case s of
        c # ds \<Rightarrow>
          if c = CHR ''-'' then - foldl (\<lambda>v c. 10 * v + (byte c - 48)) 0 ds
          else foldl (\<lambda>v c. 10 * v + (byte c - 48)) 0 s
      | [] \<Rightarrow> 0)"

lemma nat_digits_hd: "hd (nat_digits n) \<noteq> CHR ''-''"
proof
  assume "hd (nat_digits n) = CHR ''-''"
  with nat_digits_byte [OF hd_in_set [OF nat_digits_not_Nil], of n] show False by (simp add: byte_def)
qed

lemma dec_value_int_digits: "dec_value (int_digits i) = i"
proof (cases "i < 0")
  case True
  then show ?thesis by (simp add: int_digits_def dec_value_def nat_digits_value)
next
  case False
  obtain c ds where c: "nat_digits (nat i) = c # ds" by (cases "nat_digits (nat i)") auto
  moreover have "c \<noteq> CHR ''-''" using nat_digits_hd [of "nat i"] c by simp
  ultimately show ?thesis
    using False nat_digits_value [of "nat i"] by (simp add: int_digits_def dec_value_def)
qed

lemma seq_guard_bounds:
  "seq (guard_bounds obj cap i) k =
     (replicate (if i < cap then 0 else 1) (Fault (OutOfBounds obj)) @ fst k, snd k)"
  by (simp add: guard_bounds_def seq_emit)

lemma itoa_decimal_run:
  assumes "- (2 ^ 31) < value" "value < 2 ^ 31"
  shows "itoa value 10 = (str_overrun (length (int_digits value) + 1 - 4), Inr (int_digits value))"
proof (cases "value < 0")
  case True
  let ?ds = "nat_digits (nat (- value))"
  have v: "nat (- value mod 2 ^ 32) = nat (- value)" using assms True by simp
  have sw: "swap_ends (rev ?ds @ ''-'') 0 (length ?ds) = CHR ''-'' # ?ds"
    using swap_ends_rev [of "rev ?ds @ ''-''"] by simp
  have ev: "str_overrun (n - 4) @ str_overrun (if n < 4 then 0 else 1) @
      str_overrun (if Suc n < 4 then 0 else 1) = str_overrun (Suc n - 3)" for n
    by (cases "n < 3"; cases "n = 3") (simp_all add: Suc_diff_le flip: replicate_add replicate_Suc)
  have "value \<noteq> - (2 ^ 31)" using assms by simp
  then show ?thesis
    using True v sw ev [of "length ?ds"]
    by (simp add: itoa_def Let_def itoa_loop_decimal int_digits_def seq_guard_bounds bind_pair)
next
  case False
  let ?ds = "nat_digits (nat value)"
  have v: "nat (value mod 2 ^ 32) = nat value" using assms False by simp
  have ev: "str_overrun (n - 4) @ str_overrun (if n < 4 then 0 else 1) = str_overrun (n - 3)" for n
    by (cases "n < 4") (simp_all add: Suc_diff_le flip: replicate_add replicate_Suc)
  show ?thesis
    using False v swap_ends_rev [of "rev ?ds"] ev [of "length ?ds"]
    by (simp add: itoa_def Let_def itoa_loop_decimal int_digits_def seq_guard_bounds bind_pair)
qed

section \<open>Correctness\<close>

text \<open>On any string and any delimiter that is not empty, \<^verbatim>\<open>strsplit\<close> returns: the array holds the
  pieces between the delimiters (a last empty piece left out), then NULL. \<^verbatim>\<open>len\<close> is the number of
  pieces, so it counts the terminating NULL when the string ends in a delimiter. When it does not,
  that NULL is written one cell past the \<^verbatim>\<open>len\<close> cells allocated, and this is the only access out of
  bounds; the token buffer is always large enough.\<close>

theorem strsplit_correct:
  assumes "d \<noteq> []"
  shows "\<exists>a. strsplit True True (Some s) d =
      (if last (split_on d s) = [] then [] else [Fault (OutOfBounds ''result'')],
       Inr (Some a, length (split_on d s))) \<and>
    cells a = map Some (tokens_of d s) @ [None] \<and> acap a = length (split_on d s)"
  by (simp add: strsplit_eq [OF assms])

theorem strsplit_correct_witness:
  "\<exists>a. strsplit True True (Some ''a b'') '' '' =
      (if last (split_on '' '' ''a b'') = [] then [] else [Fault (OutOfBounds ''result'')],
       Inr (Some a, length (split_on '' '' ''a b''))) \<and>
    cells a = map Some (tokens_of '' '' ''a b'') @ [None] \<and> acap a = length (split_on '' '' ''a b'')"
  by (rule strsplit_correct) simp



text \<open>With an empty delimiter \<^verbatim>\<open>strsplit\<close> does not return, a NULL string crashes it, and a failed
  allocation sets \<^verbatim>\<open>len\<close> to 0.\<close>

theorem strsplit_errors:
  assumes "d \<noteq> []" "\<not> (al \<and> ar)"
  shows "strsplit al ar (Some s) [] = halt Hang \<and> strsplit al ar None d = halt (Crash (NullDeref ''str'')) \<and>
   (\<exists>a. strsplit al ar (Some s) d = ret (a, 0))"
  using assms by (auto simp: strsplit_def strsplit_count.simps [of s "[]"] strsplit_count_eq Let_def)

theorem strsplit_errors_witness:
  "strsplit True False (Some ''x'') [] = halt Hang \<and> strsplit True False None '','' = halt (Crash (NullDeref ''str'')) \<and>
   (\<exists>a. strsplit True False (Some ''x'') '','' = ret (a, 0))"
  by (rule strsplit_errors) simp_all

text \<open>\<^verbatim>\<open>itoa\<close> in radix 10 writes the decimal numeral of every value but \<^verbatim>\<open>INT_MIN\<close> (reading the
  numeral back gives the value), into a buffer of four bytes: every byte past the fourth, the
  terminating NUL included, is written out of bounds.\<close>

theorem itoa_decimal:
  assumes "- (2 ^ 31) < value" "value < 2 ^ 31"
  shows "itoa value 10 = (replicate (length (int_digits value) + 1 - 4) (Fault (OutOfBounds ''str'')),
      Inr (int_digits value)) \<and> dec_value (int_digits value) = value"
  by (simp add: itoa_decimal_run [OF assms] dec_value_int_digits)

theorem itoa_decimal_witness:
  "itoa (- 12345) 10 = (replicate (length (int_digits (- 12345)) + 1 - 4) (Fault (OutOfBounds ''str'')),
      Inr (int_digits (- 12345))) \<and> dec_value (int_digits (- 12345)) = - 12345"
  by (rule itoa_decimal) simp_all

text \<open>\<^verbatim>\<open>strReverse\<close> reverses every string that is not empty; on the empty string its upper index
  wraps to the largest \<^verbatim>\<open>size_t\<close> and it runs off the buffer.\<close>

theorem strReverse_correct:
  assumes "length s < 2 ^ 31"
  shows "strReverse (Some s) = (if s = [] then halt (Crash (BadPointer ''str'')) else ret (rev s))"
proof (cases "s = []")
  case True
  then show ?thesis by (simp add: strReverse_def strReverse_loop.simps)
next
  case False
  then have "(length s + 2 ^ 64 - 1) mod 2 ^ 64 = length s - 1"
    using assms by (cases s) (simp_all add: mod_if)
  with False show ?thesis
    using strReverse_loop_eq [of "length s - 1" s 0] swap_ends_rev [of s] by (simp add: strReverse_def)
qed

theorem strReverse_correct_witness:
  "strReverse (Some ''abcd'') = (if ''abcd'' = [] then halt (Crash (BadPointer ''str'')) else ret (rev ''abcd''))"
  by (rule strReverse_correct) simp

text \<open>For two paths that are not empty \<^verbatim>\<open>joinPath\<close> always writes a separator between them, also when
  the first one already ends in one; a NULL or empty path leaves the other one, and the only
  input that crashes is a NULL first path with an empty second one.\<close>

theorem joinPath_cases:
  "p1 \<noteq> [] \<Longrightarrow> p2 \<noteq> [] \<Longrightarrow> length p1 + 1 + length p2 < dcap \<Longrightarrow>
     joinPath dcap (Some p1) (Some p2) = ret (p1 @ ''/'' @ p2) \<and>
     joinPath dcap (Some p1) None = ret p1 \<and> joinPath dcap (Some p1) (Some []) = ret p1 \<and>
     joinPath dcap None (Some p2) = ret p2 \<and> joinPath dcap (Some []) (Some p2) = ret p2 \<and>
     joinPath dcap None None = ret [] \<and>
     joinPath dcap None (Some []) = halt (Crash (NullDeref ''path1''))"
  by (simp add: joinPath_def Let_def byte_def)

theorem joinPath_cases_witness:
  "joinPath 9 (Some ''srv/'') (Some ''a'') = ret (''srv/'' @ ''/'' @ ''a'') \<and>
   joinPath 9 (Some ''srv/'') None = ret ''srv/'' \<and> joinPath 9 (Some ''srv/'') (Some []) = ret ''srv/'' \<and>
   joinPath 9 None (Some ''a'') = ret ''a'' \<and> joinPath 9 (Some []) (Some ''a'') = ret ''a'' \<and>
   joinPath 9 None None = ret [] \<and> joinPath 9 None (Some []) = halt (Crash (NullDeref ''path1''))"
  by (rule joinPath_cases) simp_all

text \<open>\<^verbatim>\<open>readFile\<close> returns the bytes of the file up to its first NUL when every call succeeds, the text
  \<^verbatim>\<open>-1\<close> when measuring, rewinding or reading fails, and NULL (not \<^verbatim>\<open>-1\<close>) when the file does not open.\<close>

theorem readFile_cases:
  assumes "length (fread_data (fs path)) \<le> nat (ftell_size (fs path))"
  shows "readFile fs path =
    (if \<not> fopen_ok (fs path) then ret None
     else if \<not> fseek_end_ok (fs path) then ([Call ''fclose''], Inr None)
     else if ftell_size (fs path) = - 1 \<or> \<not> fseek_set_ok (fs path) \<or> ferror_set (fs path)
       then ret (Some ''-1'')
     else ([Call ''fclose''], Inr (Some (cstr_of (fread_data (fs path))))))"
proof -
  have "int_digits (- 1) = ''-1''"
    by (simp add: int_digits_def nat_digits.simps char_of_def bit_0)
  then have i: "itoa (- 1) 10 = ret ''-1''" using itoa_decimal_run [of "- 1"] by (simp add: ret_def)
  show ?thesis using assms by (simp add: readFile_def Let_def i seq_emit)
qed

theorem readFile_cases_witness:
  "readFile (\<lambda>_. \<lparr>fopen_ok = True, fseek_end_ok = True, ftell_size = 2, fseek_set_ok = True,
       fread_data = ''hi'', ferror_set = False\<rparr>) ''f'' = ([Call ''fclose''], Inr (Some ''hi''))"
  using readFile_cases [of "\<lambda>_. \<lparr>fopen_ok = True, fseek_end_ok = True, ftell_size = 2, fseek_set_ok = True,
       fread_data = ''hi'', ferror_set = False\<rparr>" "''f''"] by (simp add: cstr_of_def)

end
