(* ===== verification/Response.thy ===== *)
theory Response
  imports C_Prelude
begin

text \<open>
  \<^verbatim>\<open>src/server/response.h\<close>: the fixed HTTP responses, the templates with one \<^verbatim>\<open>%s\<close> and the two
  functions on them.
\<close>

section \<open>Responses and templates\<close>

definition ok_response :: string where
  "ok_response = ''HTTP/1.0 200 OK'' @ crlf @ ''Content-type: text/html'' @ crlf @ crlf"

definition bad_request_response :: string where
  "bad_request_response =
     ''HTTP/1.0 400 Bad Request'' @ crlf @ ''Content-type: text/html'' @ crlf @ crlf @
     ''<html>'' @ crlf @ '' <body>'' @ crlf @ ''  <h1>Bad Request</h1>'' @ crlf @
     ''  <p>This server did not understand your request.</p>'' @ crlf @
     '' </body>'' @ crlf @ ''</html>'' @ crlf"

definition not_found_response_template :: string where
  "not_found_response_template =
     ''HTTP/1.0 404 Not Found'' @ crlf @ ''Content-type: text/html'' @ crlf @ crlf @
     ''<html>'' @ crlf @ '' <body>'' @ crlf @ ''  <h1>Not Found</h1>'' @ crlf @
     ''  <p>The requested URL %s was not found on this server.</p>'' @ crlf @
     '' </body>'' @ crlf @ ''</html>'' @ crlf"

definition server_error_response_template :: string where
  "server_error_response_template =
     ''HTTP/1.0 500 Internal Server Error'' @ crlf @ ''Content-type: text/html'' @ crlf @ crlf @
     ''<html>'' @ crlf @ '' <body>'' @ crlf @ ''  <h1>Internal Server Error</h1>'' @ crlf @
     ''  <p>The server encountered an error and cannot process your request.</p>'' @ crlf @
     ''  <p>Error: %s.'' @ crlf @ ''</p>'' @
     '' </body>'' @ crlf @ ''</html>'' @ crlf"

definition bad_method_response_template :: string where
  "bad_method_response_template =
     ''HTTP/1.0 501 Method Not Implemented'' @ crlf @ ''Content-type: text/html'' @ crlf @ crlf @
     ''<html>'' @ crlf @ '' <body>'' @ crlf @ ''  <h1>Method Not Implemented</h1>'' @ crlf @
     ''  <p>The method %s is not implemented by this server.</p>'' @ crlf @
     '' </body>'' @ crlf @ ''</html>'' @ crlf"


section \<open>Functions\<close>

text \<open>The length is cut to a 32-bit \<^verbatim>\<open>int\<close>.\<close>

definition getResponseLen :: "cptr \<Rightarrow> int run" where
  "getResponseLen response =
     bind (deref ''response'' response) (\<lambda>r. ret (sint (word_of_int (int (length r)) :: 32 word)))"

text \<open>
  \<^verbatim>\<open>snprintf(resp, len, ...)\<close> writes at most \<^verbatim>\<open>len - 1\<close> bytes and a NUL. A template whose conversions do
  not match the one string argument has no defined result.
\<close>

definition snprintf :: "nat \<Rightarrow> string \<Rightarrow> farg list \<Rightarrow> string run" where
  "snprintf n fmt args =
     (case cformat fmt args of
        None \<Rightarrow> halt (Crash (BadPointer ''va_arg''))
      | Some out \<Rightarrow> ret (take (n - 1) out))"

definition createReponse :: "cptr \<Rightarrow> cptr \<Rightarrow> string run" where
  "createReponse resp_template arg =
     bind (deref ''resp_template'' resp_template) (\<lambda>t.
     bind (deref ''arg'' arg) (\<lambda>a.
       let len = length t + length a in snprintf len t [FStr a]))"


section \<open>Formatting\<close>

lemma cformat_literal:
  "CHR ''%'' \<notin> set p \<Longrightarrow> cformat (p @ q) as = map_option (append p) (cformat q as)"
proof (induction p)
  case step: (Cons c p)
  then have c: "c \<noteq> CHR ''%''" by auto
  show ?case
  proof (cases "p @ q")
    case Nil
    with c show ?thesis by simp
  next
    case (Cons d t)
    then have "cformat ((c # p) @ q) as = map_option (Cons c) (cformat (p @ q) as)"
      using c by simp
    with step show ?thesis by (simp add: option.map_comp comp_def)
  qed
qed (cases "cformat q as", simp_all)

lemma cformat_str: "cformat (CHR ''%'' # CHR ''s'' # q) (FStr a # as) = map_option (append a) (cformat q as)"
  by simp

lemma cformat_one:
  assumes "CHR ''%'' \<notin> set p" "CHR ''%'' \<notin> set q"
  shows "cformat (p @ ''%s'' @ q) [FStr a] = Some (p @ a @ q)"
proof -
  have "cformat q [] = Some q" using cformat_literal [OF assms(2), of "[]" "[]"] by simp
  then have "cformat (''%s'' @ q) [FStr a] = Some (a @ q)" by (simp add: cformat_str)
  then show ?thesis using cformat_literal [OF assms(1), of "''%s'' @ q" "[FStr a]"] by simp
qed

text \<open>The buffer is two bytes larger than the text: the two bytes of \<^verbatim>\<open>%s\<close> make room for the NUL.\<close>

lemma createReponse_one:
  assumes "CHR ''%'' \<notin> set p" "CHR ''%'' \<notin> set q"
  shows "createReponse (Some (p @ ''%s'' @ q)) (Some a) = ret (p @ a @ q)"
  by (simp add: createReponse_def snprintf_def Let_def cformat_one [OF assms, simplified])


section \<open>Correctness\<close>

text \<open>A template with exactly one conversion, \<^verbatim>\<open>%s\<close>, is filled in completely: the text before it, the
  argument and the text after it, nothing cut off, whatever the argument.\<close>

theorem createReponse_complete:
  assumes "CHR ''%'' \<notin> set p" "CHR ''%'' \<notin> set q"
  shows "createReponse (Some (p @ ''%s'' @ q)) (Some a) = ret (p @ a @ q)"
  by (rule createReponse_one [OF assms])

theorem createReponse_complete_witness:
  "createReponse (Some (''Error: '' @ ''%s'' @ ''.'')) (Some ''100%'') = ret (''Error: '' @ ''100%'' @ ''.'')"
  by (rule createReponse_complete) simp_all

text \<open>Each of the three templates is such a template: the responses are the fixed text with the
  argument in its place.\<close>

theorem templates_fill:
  "createReponse (Some not_found_response_template) (Some a) =
     ret (''HTTP/1.0 404 Not Found'' @ crlf @ ''Content-type: text/html'' @ crlf @ crlf @
       ''<html>'' @ crlf @ '' <body>'' @ crlf @ ''  <h1>Not Found</h1>'' @ crlf @
       ''  <p>The requested URL '' @ a @ '' was not found on this server.</p>'' @ crlf @
       '' </body>'' @ crlf @ ''</html>'' @ crlf) \<and>
   createReponse (Some server_error_response_template) (Some a) =
     ret (''HTTP/1.0 500 Internal Server Error'' @ crlf @ ''Content-type: text/html'' @ crlf @ crlf @
       ''<html>'' @ crlf @ '' <body>'' @ crlf @ ''  <h1>Internal Server Error</h1>'' @ crlf @
       ''  <p>The server encountered an error and cannot process your request.</p>'' @ crlf @
       ''  <p>Error: '' @ a @ ''.'' @ crlf @ ''</p>'' @ '' </body>'' @ crlf @ ''</html>'' @ crlf) \<and>
   createReponse (Some bad_method_response_template) (Some a) =
     ret (''HTTP/1.0 501 Method Not Implemented'' @ crlf @ ''Content-type: text/html'' @ crlf @ crlf @
       ''<html>'' @ crlf @ '' <body>'' @ crlf @ ''  <h1>Method Not Implemented</h1>'' @ crlf @
       ''  <p>The method '' @ a @ '' is not implemented by this server.</p>'' @ crlf @
       '' </body>'' @ crlf @ ''</html>'' @ crlf)"
proof -
  let ?nf = "''HTTP/1.0 404 Not Found'' @ crlf @ ''Content-type: text/html'' @ crlf @ crlf @
       ''<html>'' @ crlf @ '' <body>'' @ crlf @ ''  <h1>Not Found</h1>'' @ crlf @ ''  <p>The requested URL ''"
  let ?se = "''HTTP/1.0 500 Internal Server Error'' @ crlf @ ''Content-type: text/html'' @ crlf @ crlf @
       ''<html>'' @ crlf @ '' <body>'' @ crlf @ ''  <h1>Internal Server Error</h1>'' @ crlf @
       ''  <p>The server encountered an error and cannot process your request.</p>'' @ crlf @ ''  <p>Error: ''"
  let ?bm = "''HTTP/1.0 501 Method Not Implemented'' @ crlf @ ''Content-type: text/html'' @ crlf @ crlf @
       ''<html>'' @ crlf @ '' <body>'' @ crlf @ ''  <h1>Method Not Implemented</h1>'' @ crlf @ ''  <p>The method ''"
  have nf: "createReponse (Some (?nf @ ''%s'' @ '' was not found on this server.</p>'' @ crlf @ '' </body>'' @ crlf @ ''</html>'' @ crlf)) (Some a)
      = ret (?nf @ a @ '' was not found on this server.</p>'' @ crlf @ '' </body>'' @ crlf @ ''</html>'' @ crlf)"
    by (rule createReponse_one) (simp_all add: crlf_def)
  have se: "createReponse (Some (?se @ ''%s'' @ ''.'' @ crlf @ ''</p>'' @ '' </body>'' @ crlf @ ''</html>'' @ crlf)) (Some a)
      = ret (?se @ a @ ''.'' @ crlf @ ''</p>'' @ '' </body>'' @ crlf @ ''</html>'' @ crlf)"
    by (rule createReponse_one) (simp_all add: crlf_def)
  have bm: "createReponse (Some (?bm @ ''%s'' @ '' is not implemented by this server.</p>'' @ crlf @ '' </body>'' @ crlf @ ''</html>'' @ crlf)) (Some a)
      = ret (?bm @ a @ '' is not implemented by this server.</p>'' @ crlf @ '' </body>'' @ crlf @ ''</html>'' @ crlf)"
    by (rule createReponse_one) (simp_all add: crlf_def)
  show ?thesis
    using nf se bm
    unfolding not_found_response_template_def server_error_response_template_def bad_method_response_template_def
    by simp
qed

end
