(* ===== verification/HostValidation.thy ===== *)
theory HostValidation
  imports C_Prelude
begin

text \<open>
  \<^verbatim>\<open>src/validation/openssl_validation.h\<close>: does a certificate belong to the expected host.

  The certificate is read through OpenSSL; what those calls return is a record: the data and length of
  each name as an ASN.1 string holds them (bytes that may contain NUL), whether the subject has a common
  name and each lookup on the way succeeds, and the list of general names of the subject alternative
  name extension, if there is one. \<^verbatim>\<open>strlen\<close> and \<^verbatim>\<open>strcasecmp\<close> see the bytes up to the first NUL.
\<close>

section \<open>Certificates as the code sees them\<close>

datatype HostnameValidationResult =
  MatchFound | MatchNotFound | NoSANPresent | MalformedCertificate | Error

record general_name =
  is_dns :: bool
  name_bytes :: string

record x509 =
  cn_index :: int
  cn_entry_present :: bool
  cn_data_present :: bool
  cn_bytes :: string
  san :: "general_name list option"


section \<open>Functions\<close>

definition matches_common_name :: "string \<Rightarrow> x509 \<Rightarrow> HostnameValidationResult" where
  "matches_common_name hostname cert =
     (if cn_index cert < 0 then Error
      else if \<not> cn_entry_present cert then Error
      else if \<not> cn_data_present cert then Error
      else if length (cn_bytes cert) \<noteq> length (cstr_of (cn_bytes cert)) then MalformedCertificate
      else if strcasecmp hostname (cstr_of (cn_bytes cert)) = 0 then MatchFound
      else MatchNotFound)"

text \<open>The loop over the names; it leaves with \<^verbatim>\<open>break\<close> at a malformed or matching DNS name.\<close>

fun san_loop :: "string \<Rightarrow> general_name list \<Rightarrow> HostnameValidationResult" where
  "san_loop hostname [] = MatchNotFound"
| "san_loop hostname (n # ns) =
     (if is_dns n then
        if length (name_bytes n) \<noteq> length (cstr_of (name_bytes n)) then MalformedCertificate
        else if strcasecmp hostname (cstr_of (name_bytes n)) = 0 then MatchFound
        else san_loop hostname ns
      else san_loop hostname ns)"

definition matches_subject_alternative_name :: "string \<Rightarrow> x509 \<Rightarrow> HostnameValidationResult" where
  "matches_subject_alternative_name hostname cert =
     (case san cert of None \<Rightarrow> NoSANPresent | Some names \<Rightarrow> san_loop hostname names)"

definition validate_hostname :: "cptr \<Rightarrow> x509 option \<Rightarrow> HostnameValidationResult" where
  "validate_hostname hostname server_cert =
     (case hostname of None \<Rightarrow> Error
      | Some h \<Rightarrow>
          (case server_cert of None \<Rightarrow> Error
           | Some cert \<Rightarrow>
               let result = matches_subject_alternative_name h cert in
               if result = NoSANPresent then matches_common_name h cert else result))"

text \<open>
  The calls that fetch and release the list of names: \<^verbatim>\<open>sk_GENERAL_NAME_pop_free\<close> comes after the loop, on all its ways out.
\<close>

definition san_calls :: "string \<Rightarrow> x509 \<Rightarrow> HostnameValidationResult run" where
  "san_calls hostname cert =
     seq (emit (Call ''X509_get_ext_d2i''))
     (case san cert of
        None \<Rightarrow> ret NoSANPresent
      | Some names \<Rightarrow>
          bind (ret (san_loop hostname names)) (\<lambda>result.
          seq (emit (Call ''sk_GENERAL_NAME_pop_free'')) (ret result)))"

definition validate_hostname_run :: "cptr \<Rightarrow> x509 option \<Rightarrow> HostnameValidationResult run" where
  "validate_hostname_run hostname server_cert =
     (case hostname of None \<Rightarrow> ret Error
      | Some h \<Rightarrow>
          (case server_cert of None \<Rightarrow> ret Error
           | Some cert \<Rightarrow>
               bind (san_calls h cert) (\<lambda>result.
                 ret (if result = NoSANPresent then matches_common_name h cert else result))))"

lemma validate_hostname_run_snd: "snd (validate_hostname_run h c) = Inr (validate_hostname h c)"
  by (auto simp: validate_hostname_run_def validate_hostname_def san_calls_def matches_subject_alternative_name_def seq_emit
      bind_pair split: option.splits)

lemma validate_hostname_run_log:
  "fst (validate_hostname_run (Some h) (Some cert)) =
     Call ''X509_get_ext_d2i'' # (if san cert = None then [] else [Call ''sk_GENERAL_NAME_pop_free''])"
  by (auto simp: validate_hostname_run_def san_calls_def seq_emit bind_pair split: option.splits)


section \<open>Lemmas\<close>

lemma cstr_of_full: "length bs = length (cstr_of bs) \<longleftrightarrow> is_cstring bs"
proof
  assume "length bs = length (cstr_of bs)"
  then have "takeWhile (\<lambda>c. c \<noteq> NUL) bs = bs"
    unfolding cstr_of_def by (metis takeWhile_eq_take take_all order_refl)
  then have "\<forall>c \<in> set bs. c \<noteq> NUL" by (metis set_takeWhileD)
  then show "is_cstring bs" by (auto simp: is_cstring_def)
next
  assume "is_cstring bs"
  then have "cstr_of bs = bs" by (auto simp: cstr_of_def is_cstring_def takeWhile_eq_all_conv)
  then show "length bs = length (cstr_of bs)" by simp
qed

lemma tolower_NUL: "tolower c = NUL \<longleftrightarrow> c = NUL"
proof
  assume a: "tolower c = NUL"
  show "c = NUL"
  proof (cases "65 \<le> byte c \<and> byte c \<le> 90")
    case True
    then have b: "65 \<le> (of_char c :: nat)" "(of_char c :: nat) \<le> 90" by (auto simp: byte_def)
    from a True have "(of_char (char_of (of_char c + 32 :: nat)) :: nat) = of_char NUL" by (simp add: tolower_def)
    with b show ?thesis by simp
  next
    case False
    with a show ?thesis by (auto simp: tolower_def)
  qed
next
  assume "c = NUL"
  then show "tolower c = NUL" by (simp add: tolower_def byte_def)
qed

lemma is_cstring_tolower: "is_cstring (map tolower s) \<longleftrightarrow> is_cstring s"
proof -
  have "NUL \<in> tolower ` set s \<longleftrightarrow> (\<exists>c \<in> set s. tolower c = NUL)" by force
  also have "\<dots> \<longleftrightarrow> NUL \<in> set s" unfolding tolower_NUL by blast
  finally have "NUL \<in> tolower ` set s \<longleftrightarrow> NUL \<in> set s" .
  then show ?thesis by (simp add: is_cstring_def)
qed

lemma strcasecmp_eq_0:
  "is_cstring s \<Longrightarrow> is_cstring t \<Longrightarrow> strcasecmp s t = 0 \<longleftrightarrow> map tolower s = map tolower t"
  by (simp add: strcasecmp_def strcmp_eq_0 is_cstring_tolower)


section \<open>Specification\<close>

text \<open>A name matches when its whole data, which must be free of NUL, is the host name up to the case of
  its letters.\<close>

definition well_formed_name :: "string \<Rightarrow> bool" where
  "well_formed_name bs \<longleftrightarrow> is_cstring bs"

definition name_matches :: "string \<Rightarrow> string \<Rightarrow> bool" where
  "name_matches h bs \<longleftrightarrow> is_cstring bs \<and> map tolower bs = map tolower h"

text \<open>The verdict on a list of DNS names: the first one that is malformed or matches decides.\<close>

definition dns_verdict :: "string \<Rightarrow> string list \<Rightarrow> HostnameValidationResult" where
  "dns_verdict h names =
     (case find (\<lambda>bs. \<not> well_formed_name bs \<or> name_matches h bs) names of
        None \<Rightarrow> MatchNotFound
      | Some bs \<Rightarrow> if well_formed_name bs then MatchFound else MalformedCertificate)"

lemma name_compare:
  "is_cstring h \<Longrightarrow> is_cstring bs \<Longrightarrow> strcasecmp h (cstr_of bs) = 0 \<longleftrightarrow> name_matches h bs"
  by (auto simp: cstr_of_id strcasecmp_eq_0 name_matches_def)

lemma san_loop_verdict:
  "is_cstring h \<Longrightarrow> san_loop h ns = dns_verdict h (map name_bytes (filter is_dns ns))"
  by (induction ns)
    (auto simp: cstr_of_full name_compare well_formed_name_def dns_verdict_def name_matches_def)

lemma dns_verdict_match: "dns_verdict h names = MatchFound \<Longrightarrow> \<exists>bs \<in> set names. name_matches h bs"
  by (auto simp: dns_verdict_def well_formed_name_def find_Some_iff split: option.splits if_splits)

lemma dns_verdict_neq [simp]: "dns_verdict h names \<noteq> NoSANPresent" "dns_verdict h names \<noteq> Error"
  by (simp_all add: dns_verdict_def split: option.splits)

lemma common_name_verdict:
  assumes "is_cstring h"
  shows "matches_common_name h cert =
    (if cn_index cert < 0 \<or> \<not> cn_entry_present cert \<or> \<not> cn_data_present cert then Error
     else dns_verdict h [cn_bytes cert])"
  using assms
  by (auto simp: matches_common_name_def dns_verdict_def cstr_of_full well_formed_name_def name_compare
      name_matches_def)

lemma validate_hostname_verdict:
  assumes "is_cstring h"
  shows "validate_hostname (Some h) (Some cert) =
    (case san cert of
       Some names \<Rightarrow> dns_verdict h (map name_bytes (filter is_dns names))
     | None \<Rightarrow>
         if cn_index cert < 0 \<or> \<not> cn_entry_present cert \<or> \<not> cn_data_present cert then Error
         else dns_verdict h [cn_bytes cert])"
  using assms
  by (simp add: validate_hostname_def matches_subject_alternative_name_def san_loop_verdict Let_def
      common_name_verdict split: option.splits)


section \<open>Correctness\<close>

text \<open>C21. \<^verbatim>\<open>validate_hostname\<close> decides by the subject alternative names when the certificate has that
  extension, by the common name otherwise: among the DNS names the first that is malformed (has an
  embedded NUL) or matches gives the verdict; a common name that cannot be read is an error.\<close>

theorem validate_hostname_spec:
  assumes "is_cstring h"
  shows "validate_hostname (Some h) (Some cert) =
    (case san cert of
       Some names \<Rightarrow> dns_verdict h (map name_bytes (filter is_dns names))
     | None \<Rightarrow>
         if cn_index cert < 0 \<or> \<not> cn_entry_present cert \<or> \<not> cn_data_present cert then Error
         else dns_verdict h [cn_bytes cert])"
  by (rule validate_hostname_verdict [OF assms])

definition devopsec_cert :: x509 where
  "devopsec_cert = \<lparr>cn_index = 0, cn_entry_present = True, cn_data_present = True, cn_bytes = ''other'',
     san = Some [\<lparr>is_dns = False, name_bytes = ''devopsec.net''\<rparr>, \<lparr>is_dns = True, name_bytes = ''DevOpSec.net''\<rparr>]\<rparr>"

theorem validate_hostname_spec_witness:
  "validate_hostname (Some ''devopsec.net'') (Some devopsec_cert) =
    (case san devopsec_cert of
       Some names \<Rightarrow> dns_verdict ''devopsec.net'' (map name_bytes (filter is_dns names))
     | None \<Rightarrow>
         if cn_index devopsec_cert < 0 \<or> \<not> cn_entry_present devopsec_cert \<or> \<not> cn_data_present devopsec_cert then Error
         else dns_verdict ''devopsec.net'' [cn_bytes devopsec_cert])"
  by (rule validate_hostname_spec) (simp add: is_cstring_def)

text \<open>C4. A match is never the work of an embedded NUL: when \<^verbatim>\<open>validate_hostname\<close> answers \<^verbatim>\<open>MatchFound\<close>, some DNS
  name of the certificate, or its common name if it has no alternative names, equals the host name up
  to letter case over its whole length and contains no NUL.\<close>

theorem validate_hostname_no_nul_prefix:
  assumes "is_cstring h" "validate_hostname (Some h) (Some cert) = MatchFound"
  shows "\<exists>bs. NUL \<notin> set bs \<and> map tolower bs = map tolower h \<and>
    (case san cert of
       Some names \<Rightarrow> \<exists>n \<in> set names. is_dns n \<and> name_bytes n = bs
     | None \<Rightarrow> cn_bytes cert = bs)"
proof (cases "san cert")
  case None
  then have "dns_verdict h [cn_bytes cert] = MatchFound"
    using assms by (simp add: validate_hostname_verdict split: if_splits)
  with None show ?thesis using dns_verdict_match by (fastforce simp: name_matches_def is_cstring_def)
next
  case (Some names)
  then have "dns_verdict h (map name_bytes (filter is_dns names)) = MatchFound"
    using assms by (simp add: validate_hostname_verdict)
  with Some show ?thesis using dns_verdict_match by (fastforce simp: name_matches_def is_cstring_def)
qed

theorem validate_hostname_no_nul_prefix_witness:
  "\<exists>bs. NUL \<notin> set bs \<and> map tolower bs = map tolower ''devopsec.net'' \<and>
    (case san devopsec_cert of
       Some names \<Rightarrow> \<exists>n \<in> set names. is_dns n \<and> name_bytes n = bs
     | None \<Rightarrow> cn_bytes devopsec_cert = bs)"
proof (rule validate_hostname_no_nul_prefix)
  show "is_cstring ''devopsec.net''" by (simp add: is_cstring_def)
  show "validate_hostname (Some ''devopsec.net'') (Some devopsec_cert) = MatchFound" by code_simp
qed

end
