(* ===== verification/Ssl_Print.thy ===== *)
theory Ssl_Print
  imports C_Prelude
begin

text \<open>
  The printing functions of \<^verbatim>\<open>src/crypto/ssl_funcs.h\<close>: certificates and the error queue of OpenSSL. The one-line
  form of a name, the texts of the error codes and the queue are parameters; what a function prints is its result, and
  the objects it releases are events.
\<close>

section \<open>Certificates\<close>

text \<open>What \<^verbatim>\<open>X509_NAME_oneline\<close> answers for the subject and the issuer of a certificate; NULL when it fails.\<close>

record cert_names =
  subject_line :: cptr
  issuer_line :: cptr

text \<open>\<^verbatim>\<open>printf("%s\n", s)\<close> with a pointer that may be NULL, which \<^verbatim>\<open>printf\<close> must not be given.\<close>

definition print_line :: "string \<Rightarrow> cptr \<Rightarrow> string run" where
  "print_line label s =
     (case s of
        Some t \<Rightarrow> ret (label @ t @ [CHR 0x0A])
      | None \<Rightarrow> seq (emit (Fault (NullDeref label))) (ret (label @ ''(null)'' @ [CHR 0x0A])))"

definition showCerts :: "cert_names option \<Rightarrow> string run" where
  "showCerts peer =
     seq (emit (Call ''SSL_get_peer_certificate''))
     (case peer of
        None \<Rightarrow> ret (''No certificates were found'' @ [CHR 0x0A])
      | Some cert \<Rightarrow>
          bind (print_line ''Subject: '' (subject_line cert)) (\<lambda>l1.
          seq (emit (Call ''free line''))
          (bind (print_line ''Issuer: '' (issuer_line cert)) (\<lambda>l2.
           seq (emit (Call ''free line''))
           (seq (emit (Call ''X509_free''))
            (ret (''Server certificates:'' @ [CHR 0x0A] @ l1 @ l2)))))))"

text \<open>
  \<^verbatim>\<open>printSubjOneline\<close>: the name as printed into a memory buffer (\<open>None\<close>: the buffer could not be created or stayed
  empty, so that its length is not positive). The subject name belongs to the certificate; \<^verbatim>\<open>free\<close> is applied to it.
\<close>

definition printSubjOneline :: "cptr \<Rightarrow> bool \<Rightarrow> bool \<Rightarrow> string run" where
  "printSubjOneline printed bmem subj =
     (let out = (case printed of Some t \<Rightarrow> if t = [] then ''?'' else t | None \<Rightarrow> ''?'') in
      seq (if bmem then emit (Call ''BIO_free_all'') else ret ())
      (seq (if subj then emit (Fault (BadPointer ''subj'')) else ret ()) (ret out)))"


section \<open>Errors\<close>

text \<open>
  The error queue is a list of codes, oldest first; \<^verbatim>\<open>ERR_get_error\<close> removes the oldest, and answers 0 for an empty
  queue. \<open>reason\<close>, \<open>errstr\<close> and \<open>errline\<close> are the texts of a code in \<^verbatim>\<open>ERR_reason_error_string\<close> (NULL for a code
  without a text), \<^verbatim>\<open>ERR_error_string\<close> and \<^verbatim>\<open>ERR_print_errors_fp\<close>, which empties the queue.
\<close>

record err_texts =
  reason :: "nat \<Rightarrow> cptr"
  errstr :: "nat \<Rightarrow> string"
  errline :: "nat \<Rightarrow> string"

fun ERR_get_error :: "nat list \<Rightarrow> nat \<times> nat list" where
  "ERR_get_error [] = (0, [])"
| "ERR_get_error (e # q) = (e, q)"

text \<open>\<^verbatim>\<open>fprintf(stream, msg)\<close>: the message is the format.\<close>

definition print_format :: "string \<Rightarrow> string run" where
  "print_format msg =
     (case cformat msg [] of Some t \<Rightarrow> ret t | None \<Rightarrow> seq (emit (Fault (BadPointer ''format''))) (ret []))"

definition logSSLErr :: "err_texts \<Rightarrow> string \<Rightarrow> nat list \<Rightarrow> (string \<times> nat list) run" where
  "logSSLErr t msg q =
     bind (print_format msg) (\<lambda>l0.
       let (e1, q1) = ERR_get_error q in
       bind (print_line ''Error: '' (reason t e1)) (\<lambda>l1.
         let (e2, q2) = ERR_get_error q1 in
         ret (l0 @ l1 @ errstr t e2 @ [CHR 0x0A] @ concat (map (errline t) q2), [])))"

definition printSSLErr :: "err_texts \<Rightarrow> string \<Rightarrow> nat list \<Rightarrow> (string \<times> nat list) run" where
  "printSSLErr t msg q =
     bind (print_format msg) (\<lambda>l0.
       let (e1, q1) = ERR_get_error q in
       bind (print_line ''Error: '' (reason t e1)) (\<lambda>l1.
         let (e2, q2) = ERR_get_error q1 in
         ret (l0 @ l1 @ errstr t e2 @ [CHR 0x0A] @ concat (map (errline t) q2), [])))"


section \<open>The properties\<close>

lemma cformat_plain: "CHR ''%'' \<notin> set msg \<Longrightarrow> cformat msg as = Some msg"
  by (induction msg "as" rule: cformat.induct) auto

text \<open>\<^verbatim>\<open>showCerts\<close> returns, and makes no call but those that take and release the certificate and its two lines.\<close>

lemma showCerts_run:
  obtains l out where "showCerts peer = (l, Inr out)"
    "list_all (\<lambda>e. is_fault e \<or> e \<in> {Call ''SSL_get_peer_certificate'', Call ''free line'', Call ''X509_free''}) l"
proof -
  have "\<exists>l out. showCerts peer = (l, Inr out) \<and>
    list_all (\<lambda>e. is_fault e \<or> e \<in> {Call ''SSL_get_peer_certificate'', Call ''free line'', Call ''X509_free''}) l"
    by (auto simp: showCerts_def print_line_def seq_def bind_def ret_def emit_def split: option.splits)
  with that show thesis by blast
qed

text \<open>\<^verbatim>\<open>showCerts\<close> releases the two lines and the certificate it asked for, each once, in every case, and prints the
  subject and then the issuer.\<close>

theorem showCerts_releases:
  "filter (\<lambda>e. \<not> is_fault e) (fst (showCerts (Some c))) =
     [Call ''SSL_get_peer_certificate'', Call ''free line'', Call ''free line'', Call ''X509_free'']"
  "subject_line c = Some s \<Longrightarrow> issuer_line c = Some i \<Longrightarrow>
     snd (showCerts (Some c)) =
       Inr (''Server certificates:'' @ [CHR 0x0A] @ ''Subject: '' @ s @ [CHR 0x0A] @ ''Issuer: '' @ i @ [CHR 0x0A]) \<and>
     faults (showCerts (Some c)) = []"
  by (auto simp: showCerts_def print_line_def faults_def seq_def bind_def ret_def emit_def split: option.splits)

theorem showCerts_releases_witness:
  "snd (showCerts (Some \<lparr>subject_line = Some ''/CN=a'', issuer_line = Some ''/CN=b''\<rparr>)) =
     Inr (''Server certificates:'' @ [CHR 0x0A] @ ''Subject: '' @ ''/CN=a'' @ [CHR 0x0A] @ ''Issuer: '' @ ''/CN=b'' @ [CHR 0x0A]) \<and>
   faults (showCerts (Some \<lparr>subject_line = Some ''/CN=a'', issuer_line = Some ''/CN=b''\<rparr>)) = []"
  by (rule showCerts_releases(2)) simp_all

text \<open>\<^verbatim>\<open>printSubjOneline\<close> writes the printed name, or a question mark when there is none, and then releases the
  subject name, which belongs to the certificate, for every certificate that has one.\<close>

theorem printSubjOneline_frees_subject:
  "printSubjOneline printed bmem subj =
     ((if bmem then [Call ''BIO_free_all''] else []) @ (if subj then [Fault (BadPointer ''subj'')] else []),
      Inr (if printed = None \<or> printed = Some [] then ''?'' else the printed))"
  by (auto simp: printSubjOneline_def Let_def run_simps ret_def emit_def seq_def bind_def split: option.splits)

text \<open>The two functions that report errors do the same on their streams, empty the queue, and take two codes out of it:
  for a message without conversions and a queue whose first code has a reason, the line after the message is the
  reason of the first code and the next line is the text of the second code (of code 0, \<open>no error\<close>, when there was
  only one). The text of the first code is not printed.\<close>

theorem printSSLErr_two_codes:
  assumes "CHR ''%'' \<notin> set msg" "reason t e1 = Some r"
  shows "printSSLErr t msg (e1 # q) =
    ret (msg @ ''Error: '' @ r @ [CHR 0x0A] @ errstr t (case q of [] \<Rightarrow> 0 | e2 # _ \<Rightarrow> e2) @ [CHR 0x0A] @
      concat (map (errline t) (tl q)), [])"
    and "logSSLErr t msg' q' = printSSLErr t msg' q'"
  using assms
  by (auto simp: printSSLErr_def logSSLErr_def print_format_def print_line_def cformat_plain split: list.splits)

theorem printSSLErr_two_codes_witness:
  "printSSLErr \<lparr>reason = (\<lambda>_. Some ''bad certificate''), errstr = nat_digits, errline = nat_digits\<rparr> ''handshake'' [17, 4] =
     ret (''handshake'' @ ''Error: '' @ ''bad certificate'' @ [CHR 0x0A] @ nat_digits 4 @ [CHR 0x0A], [])"
  using printSSLErr_two_codes(1)
    [of "''handshake''" "\<lparr>reason = (\<lambda>_. Some ''bad certificate''), errstr = nat_digits, errline = nat_digits\<rparr>" 17
      "''bad certificate''" "[4]"]
  by simp

end
