(* ===== verification/Ssl_IO.thy ===== *)
theory Ssl_IO
  imports C_Prelude HostValidation Ssl_Print
begin

text \<open>
  \<^verbatim>\<open>src/crypto/ssl_funcs.h\<close>: setting up a TLS connection, and sending and receiving whole messages on
  it. OpenSSL is not part of the sources: what its calls return is a parameter, a record for the set-up
  and, for \<^verbatim>\<open>SSL_write\<close> and \<^verbatim>\<open>SSL_read\<close>, the answer to each call in turn. The calls that take or give
  back resources are events.
\<close>

section \<open>Constants\<close>

definition SOCK_BUFF_DEF_READ :: int where "SOCK_BUFF_DEF_READ = 87380"
definition SOCK_BUFF_MAX_READ :: int where "SOCK_BUFF_MAX_READ = 6291456"


section \<open>Sending and receiving\<close>

text \<open>
  The loop of \<^verbatim>\<open>sendall\<close>; \<open>wr k num\<close> is what the \<open>k\<close>-th call \<^verbatim>\<open>SSL_write(ssl, strbuf + total, num)\<close>
  returns and \<open>wire\<close> what has been written. The loop advances by what the calls accept, so a call that
  accepts nothing repeats: the value is \<open>None\<close> when it never ends.
\<close>

partial_function (option) sendall_loop ::
  "(nat \<Rightarrow> int \<Rightarrow> int) \<Rightarrow> string \<Rightarrow> int \<Rightarrow> nat \<Rightarrow> int \<Rightarrow> int \<Rightarrow> int \<Rightarrow> string \<Rightarrow> (int \<times> int \<times> string) option"
where
  "sendall_loop wr strbuf len k tot bytesleft n wire =
     (if tot < len then
        (let n' = wr k bytesleft in
         if n' < 0 then Some (n', tot, wire)
         else sendall_loop wr strbuf len (k + 1) (tot + n') (bytesleft - n') n'
                (wire @ take (nat n') (drop (nat tot) strbuf)))
      else Some (n, tot, wire))"

text \<open>The result is the returned status and what \<^verbatim>\<open>*len\<close> is set to.\<close>

definition sendall :: "(nat \<Rightarrow> int \<Rightarrow> int) \<Rightarrow> string \<Rightarrow> int \<Rightarrow> (int \<times> int) run" where
  "sendall wr strbuf len =
     seq (if nat len \<le> length strbuf then ret () else emit (Fault (OutOfBounds ''strbuf'')))
     (case sendall_loop wr strbuf len 0 0 len (- 1) [] of
        None \<Rightarrow> halt Hang
      | Some (n, tot, wire) \<Rightarrow>
          seq (if wire = [] then ret () else emit (SslWrite wire)) (ret (if n < 0 then n else 0, tot)))"

text \<open>
  The loop of \<^verbatim>\<open>readall\<close>; \<open>rd k\<close> is the status and the data of the \<open>k\<close>-th \<^verbatim>\<open>SSL_read\<close>. Each call
  may deliver up to \<^verbatim>\<open>SOCK_BUFF_DEF_READ\<close> bytes at \<^verbatim>\<open>buf + total\<close>; both callers pass a buffer of
  \<^verbatim>\<open>SOCK_BUFF_DEF_READ\<close> bytes in all.
\<close>

function readall_loop :: "(nat \<Rightarrow> int \<times> string) \<Rightarrow> nat \<Rightarrow> int \<Rightarrow> string \<Rightarrow> (int \<times> string) run" where
  "readall_loop rd k tot buf =
     (let n = fst (rd k); tot' = tot + n; buf' = buf @ (if 0 < n then snd (rd k) else []) in
      seq (if n \<le> 0 \<or> tot' \<le> SOCK_BUFF_DEF_READ then ret () else emit (Fault (OutOfBounds ''buf'')))
      (if n < 0 \<or> SOCK_BUFF_MAX_READ < tot' then seq (emit (Stderr (''readall() error'' @ [LF]))) (ret (n, buf'))
       else if n \<noteq> 0 then readall_loop rd (k + 1) tot' buf'
       else ret (n, buf')))"
  by pat_completeness auto
termination
  by (relation "measure (\<lambda>(rd, k, tot, buf). nat (SOCK_BUFF_MAX_READ + 1 - tot))") auto

declare readall_loop.simps [simp del]

definition readall :: "(nat \<Rightarrow> int \<times> string) \<Rightarrow> (int \<times> string) run" where
  "readall rd = bind (readall_loop rd 0 0 []) (\<lambda>(n, buf). ret (if n < 0 then n else 0, buf))"


section \<open>Setting a connection up\<close>

text \<open>The answers of OpenSSL during the set-up of one connection.\<close>

record ssl_env =
  init_ssl :: int
  init_crypto :: int
  ctx_ok :: bool
  load_verify :: int
  use_cert :: int
  use_key :: int
  check_key :: bool
  ssl_new_ok :: bool
  set_fd :: int
  handshake :: int
  peer_cert :: "x509 option"
  peer_names :: cert_names
  shutdown1 :: int
  null_faults :: bool
  method_ok :: bool
  verify_ok :: bool
  verify_text :: string
  shutdown2 :: int
  ssl_failure :: bool
  state_text :: string
  err_text :: err_texts
  queued :: "string \<Rightarrow> nat list"

text \<open>
  A call on an object that could not be created passes NULL to OpenSSL, whose documentation does not
  say what happens then: \<open>null_faults\<close> is whether such a call crashes. Where it does not, the call
  answers what the record says.
\<close>

definition ossl_object :: "ssl_env \<Rightarrow> string \<Rightarrow> bool \<Rightarrow> unit run" where
  "ossl_object e what created =
     (if created \<or> \<not> null_faults e then ret () else halt (Crash (NullDeref what)))"

text \<open>
  \<^verbatim>\<open>printSSLErr\<close> empties the error queue of OpenSSL. What the library has put there since it was last emptied is a
  parameter, \<open>queued e msg\<close> for the report with this message; where nothing can have been put there the queue is
  written as empty. \<^verbatim>\<open>ERR_print_errors_fp\<close> prints the rest of the queue, one line per code.
\<close>

definition report :: "ssl_env \<Rightarrow> string \<Rightarrow> nat list \<Rightarrow> unit run" where
  "report e msg q = bind (printSSLErr (err_text e) msg q) (\<lambda>(out, _). emit (Stderr out))"

abbreviation reported :: "ssl_env \<Rightarrow> string \<Rightarrow> unit run" where
  "reported e msg \<equiv> report e msg (queued e msg)"

definition ERR_print_errors_fp :: "ssl_env \<Rightarrow> nat list \<Rightarrow> unit run" where
  "ERR_print_errors_fp e q = emit (Stderr (concat (map (errline (err_text e)) q)))"

definition initSSL :: "ssl_env \<Rightarrow> unit run" where
  "initSSL e =
     seq (emit (Call ''OPENSSL_init''))
     (seq (emit (Call ''OPENSSL_init_ssl''))
     (if init_ssl e = 0 then
        seq (emit (Stderr (''OPENSSL_init_ssl() error: could not init library'' @ [LF]))) (halt (Exit (- 1)))
      else
        seq (emit (Call ''OPENSSL_init_crypto''))
        (if init_crypto e = 0 then
           seq (emit (Stderr (''OPENSSL_init_crypto() error: could not init library'' @ [LF]))) (halt (Exit (- 1)))
         else seq (emit (Call ''ERR_load_BIO_strings'')) (emit (Call ''ERR_load_PEM_strings'')))))"

text \<open>Both initialisers only report a NULL context; they return it all the same. The second report of the server's finds
  the queue empty.\<close>

definition initServerCTX :: "ssl_env \<Rightarrow> unit option run" where
  "initServerCTX e =
     seq (if method_ok e then ret () else reported e ''initServerCTX() error: method is NULL'')
     (seq (emit (Call ''SSL_CTX_new''))
     (if ctx_ok e then ret (Some ())
      else
        seq (reported e ''initServerCTX() error: ctx is NULL'')
        (seq (ERR_print_errors_fp e []) (ret None))))"

definition initClientCTX :: "ssl_env \<Rightarrow> unit option run" where
  "initClientCTX e =
     seq (if method_ok e then ret () else reported e ''initClientCTX() error: method is NULL'')
     (seq (emit (Call ''SSL_CTX_new''))
     (if ctx_ok e then ret (Some ())
      else seq (reported e ''initClientCTX() error: ctx is NULL'') (ret None)))"

text \<open>\<^verbatim>\<open>loadCerts\<close> reports each failure and goes on; the result says what it managed to load.\<close>

definition loadCerts :: "ssl_env \<Rightarrow> (bool \<times> bool \<times> bool) run" where
  "loadCerts e =
     seq (emit (Call ''SSL_CTX_use_certificate_file''))
     (seq (if use_cert e = 1 then ret () else ERR_print_errors_fp e (queued e ''SSL_CTX_use_certificate_file''))
     (seq (emit (Call ''SSL_CTX_use_PrivateKey_file''))
     (seq (if use_key e = 1 then ret () else ERR_print_errors_fp e (queued e ''SSL_CTX_use_PrivateKey_file''))
     (seq (emit (Call ''SSL_CTX_check_private_key''))
     (seq (if check_key e then ret () else ERR_print_errors_fp e (queued e ''SSL_CTX_check_private_key''))
      (ret (use_cert e = 1, use_key e = 1, check_key e)))))))"

text \<open>With \<^verbatim>\<open>cSSL\<close> and \<^verbatim>\<open>ctx\<close> NULL, as every caller passes them.\<close>

definition destroySSL :: "bool \<Rightarrow> bool \<Rightarrow> unit run" where
  "destroySSL cssl ctx =
     seq (emit (Call ''ERR_free_strings''))
     (seq (emit (Call ''EVP_cleanup''))
     (seq (emit (Call ''CRYPTO_cleanup_all_ex_data''))
     (seq (if cssl then emit (Call ''SSL_free'') else ret ())
      (if ctx then emit (Call ''SSL_CTX_free'') else ret ()))))"

text \<open>\<^verbatim>\<open>cssl\<close>: the connection is not NULL; \<^verbatim>\<open>ctx\<close> is not used.\<close>

definition shutdownSSL :: "ssl_env \<Rightarrow> bool \<Rightarrow> unit run" where
  "shutdownSSL e cssl =
     seq (emit (Call ''ERR_clear_error''))
     (seq (ossl_object e ''cSSL'' cssl)
     (seq (emit (Call ''SSL_shutdown''))
     (seq
        (if shutdown1 e = 1 then ret ()
         else if shutdown1 e = 0 then
           seq (emit (Call ''SSL_shutdown''))
           (if shutdown2 e = - 1 then reported e ''shutdownSSL(): bidirectional shutdown error'' else ret ())
         else if shutdown1 e = - 1 then
           seq (emit (Call ''SSL_get_error''))
           (seq (if ssl_failure e then reported e ''printSSLErr(): ssl error'' else ret ())
            (emit (Stderr (''SSL State Description: '' @ state_text e @ [LF]))))
         else ret ())
      (emit (Call ''FIPS_mode_set'')))))"

text \<open>The clean-up that every failure of \<^verbatim>\<open>configClientSSL\<close> past the trust store runs through.\<close>

definition client_fail :: "ssl_env \<Rightarrow> int \<Rightarrow> 'a run" where
  "client_fail e sock =
     seq (shutdownSSL e (ssl_new_ok e))
     (seq (destroySSL False False) (seq (emit (Close sock)) (halt (Exit (- 1)))))"

definition configClientSSL :: "ssl_env \<Rightarrow> int \<Rightarrow> unit run" where
  "configClientSSL e connect_sock =
     bind (initSSL e) (\<lambda>_.
     bind (initClientCTX e) (\<lambda>ctx.
     seq (ossl_object e ''ctx'' (ctx \<noteq> None))
     (seq (emit (Call ''SSL_CTX_set_verify(SSL_VERIFY_PEER)''))
     (seq (emit (Call ''SSL_CTX_load_verify_locations''))
     (if load_verify e \<noteq> 1 then
        seq (reported e ''SSL_CTX_load_verify_locations() error: Couldn't load CA Stack'')
        (seq (emit (Call ''SSL_CTX_free''))
        (seq (destroySSL False False) (seq (emit (Close connect_sock)) (halt (Exit (- 1))))))
      else
        seq (emit (Call ''SSL_new''))
        (if \<not> ssl_new_ok e then
           seq (reported e ''SSL_new() error: Could not create SSL struct'') (client_fail e connect_sock)
         else
           seq (emit (Call ''SSL_set_fd''))
           (if set_fd e = 0 then
              seq (reported e ''SSL_set_fd() error: Could not attach to sock'') (client_fail e connect_sock)
            else
              seq (emit (Call ''SSL_connect''))
              (seq (emit (Call ''SSL_get_verify_result''))
              (if handshake e \<le> 0 then
                 seq
                   (if \<not> verify_ok e then
                      seq (emit (Stderr (''SSL_accept() error: Certificate Chain validation failed (Fatal Error):'' @ [LF])))
                      (reported e (verify_text e))
                    else reported e ''SSL_accept() error: handshake was not successful (Fatal Error)'')
                 (client_fail e connect_sock)
               else
                 bind (showCerts (map_option (\<lambda>_. peer_names e) (peer_cert e))) (\<lambda>_.
                 seq (emit (Call ''SSL_get_peer_certificate''))
                 (if peer_cert e = None then
                    seq (reported e ''SSL_get_peer_certificate() error: Server did not provide a certificate'')
                    (client_fail e connect_sock)
                  else
                    bind (validate_hostname_run (Some ''devopsec.net'') (peer_cert e)) (\<lambda>result.
                    if result \<noteq> MatchFound then
                      seq (emit (Stderr (''Hostname validation failed.'' @ [LF])))
                      (seq (reported e ''SSL_get_peer_certificate() error: Server did not provide a certificate'')
                      (client_fail e connect_sock))
                    else ret ()))))))))))))"

text \<open>The server asks for the certificate of its peer before the handshake, when there is none. A context that could not
  be created has been reported by \<open>initServerCTX\<close>, which leaves the queue empty for the second report.\<close>

definition configServerSSL :: "ssl_env \<Rightarrow> int \<Rightarrow> unit run" where
  "configServerSSL e worker_sock =
     bind (initSSL e) (\<lambda>_.
     bind (initServerCTX e) (\<lambda>ctx.
     seq (if ctx = None then report e ''initServerCTX() error: ctx is NULL'' [] else ret ())
     (seq (ossl_object e ''ctx'' (ctx \<noteq> None))
     (seq (emit (Call ''SSL_CTX_set_verify(SSL_VERIFY_PEER | SSL_VERIFY_FAIL_IF_NO_PEER_CERT)''))
     (seq (emit (Call ''SSL_CTX_set_verify_depth(4)''))
     (bind (loadCerts e) (\<lambda>_.
      seq (emit (Call ''SSL_new''))
      (bind (showCerts None) (\<lambda>_.
      seq (ossl_object e ''cSSL'' (ssl_new_ok e))
      (seq (emit (Call ''SSL_set_fd''))
      (seq (emit (Call ''SSL_accept''))
      (if handshake e \<le> 0 then
         seq (emit (Stderr (''SSL_accept() error'' @ [LF])))
         (seq (shutdownSSL e (ssl_new_ok e)) (halt (Exit 1)))
       else ret ()))))))))))))"

text \<open>The trust stack of the server; neither failure stops it, and no caller uses it.\<close>

definition configCAStack :: "ssl_env \<Rightarrow> int \<Rightarrow> bool \<Rightarrow> unit run" where
  "configCAStack e status names_loaded =
     seq (emit (Call ''SSL_CTX_load_verify_locations''))
     (seq (if status = 1 then ret ()
           else reported e ''SSL_CTX_load_verify_locations() error: unable to set CA location'')
     (seq (emit (Call ''SSL_load_client_CA_file''))
     (if names_loaded then emit (Call ''SSL_CTX_set_client_CA_list'')
      else reported e ''configCAStack() error: cert_names is NULL'')))"

section \<open>Lemmas on sending\<close>

text \<open>
  \<^verbatim>\<open>SSL_write\<close> never accepts more than it is given; \<open>write_progress\<close>: it also always accepts
  something, as it does on a blocking connection that has not failed.
\<close>

definition write_bounded :: "(nat \<Rightarrow> int \<Rightarrow> int) \<Rightarrow> bool" where
  "write_bounded wr \<longleftrightarrow> (\<forall>k num. 0 < num \<longrightarrow> wr k num \<le> num)"

definition write_progress :: "(nat \<Rightarrow> int \<Rightarrow> int) \<Rightarrow> bool" where
  "write_progress wr \<longleftrightarrow> (\<forall>k num. 0 < num \<longrightarrow> 1 \<le> wr k num \<and> wr k num \<le> num)"

lemma take_add_drop: "take m xs @ take n (drop m xs) = take (m + n) xs"
  by (simp add: take_add)

lemma sendall_loop_complete:
  assumes "write_progress wr" "0 \<le> tot" "tot \<le> len" "tot < len \<or> 0 \<le> n"
  shows "\<exists>n'. 0 \<le> n' \<and>
    sendall_loop wr buf len k tot (len - tot) n (take (nat tot) buf) = Some (n', len, take (nat len) buf)"
  using assms(2-)
proof (induction "nat (len - tot)" arbitrary: k tot n rule: less_induct)
  case less
  show ?case
  proof (cases "tot < len")
    case True
    let ?n = "wr k (len - tot)"
    have n: "1 \<le> ?n" "?n \<le> len - tot" using assms(1) True by (auto simp: write_progress_def)
    then have "nat (len - (tot + ?n)) < nat (len - tot)" "0 \<le> tot + ?n" "tot + ?n \<le> len" "0 \<le> ?n"
      using less.prems by auto
    from less.hyps [OF this(1-3), of ?n] this(4) obtain n' where n': "0 \<le> n'"
      "sendall_loop wr buf len (k + 1) (tot + ?n) (len - (tot + ?n)) ?n (take (nat (tot + ?n)) buf)
        = Some (n', len, take (nat len) buf)" by blast
    have "take (nat tot) buf @ take (nat ?n) (drop (nat tot) buf) = take (nat (tot + ?n)) buf"
      using n less.prems by (simp add: take_add_drop nat_add_distrib)
    with n n' True show ?thesis
      by (simp add: sendall_loop.simps [of wr buf len k tot] Let_def diff_diff_eq)
  next
    case False
    with less.prems have "tot = len" "0 \<le> n" by auto
    then show ?thesis by (simp add: sendall_loop.simps [of wr buf len k len])
  qed
qed

lemma sendall_complete:
  assumes "write_progress wr" "buf \<noteq> []"
  shows "sendall wr buf (int (length buf)) = ([SslWrite buf], Inr (0, int (length buf)))"
proof -
  have "\<exists>n'. 0 \<le> n' \<and> sendall_loop wr buf (int (length buf)) 0 0 (int (length buf)) (- 1) [] =
      Some (n', int (length buf), buf)"
    using sendall_loop_complete [OF assms(1), of 0 "int (length buf)" "- 1" buf 0] assms(2) by simp
  then show ?thesis using assms(2) by (auto simp: sendall_def seq_emit)
qed

lemma sendall_loop_sound:
  assumes "sendall_loop wr buf len k tot left n wire = Some r"
  shows "write_bounded wr \<longrightarrow> left = len - tot \<longrightarrow> 0 \<le> tot \<longrightarrow> tot \<le> len \<longrightarrow> wire = take (nat tot) buf \<longrightarrow>
    0 \<le> fst (snd r) \<and> fst (snd r) \<le> len \<and> snd (snd r) = take (nat (fst (snd r))) buf \<and>
    (0 \<le> fst r \<longrightarrow> fst (snd r) = len)"
proof (rule sendall_loop.raw_induct [OF _ assms, where P = "\<lambda>wr buf len k tot left n wire r.
    write_bounded wr \<longrightarrow> left = len - tot \<longrightarrow> 0 \<le> tot \<longrightarrow> tot \<le> len \<longrightarrow> wire = take (nat tot) buf \<longrightarrow>
    0 \<le> fst (snd r) \<and> fst (snd r) \<le> len \<and> snd (snd r) = take (nat (fst (snd r))) buf \<and>
    (0 \<le> fst r \<longrightarrow> fst (snd r) = len)"], goal_cases)
  case (1 f wr buf len k tot left n wire r)
  show ?case
  proof (cases "tot < len \<and> 0 \<le> wr k left")
    case True
    then have "f wr buf len (k + 1) (tot + wr k left) (left - wr k left) (wr k left)
        (wire @ take (nat (wr k left)) (drop (nat tot) buf)) = Some r" using 1(2) by (simp add: Let_def)
    note IH = 1(1) [OF this]
    show ?thesis
    proof (intro impI)
      assume a: "write_bounded wr" "left = len - tot" "0 \<le> tot" "tot \<le> len" "wire = take (nat tot) buf"
      then have "wr k left \<le> len - tot" using True by (auto simp: write_bounded_def)
      moreover have "wire @ take (nat (wr k left)) (drop (nat tot) buf) = take (nat (tot + wr k left)) buf"
        using a True by (simp add: take_add_drop nat_add_distrib)
      ultimately show "0 \<le> fst (snd r) \<and> fst (snd r) \<le> len \<and> snd (snd r) = take (nat (fst (snd r))) buf \<and>
          (0 \<le> fst r \<longrightarrow> fst (snd r) = len)"
        using IH a True by simp
    qed
  next
    case False
    then show ?thesis using 1(2) by (auto simp: Let_def split: if_splits)
  qed
qed

text \<open>Termination without the promise that a call succeeds: it is enough that none of them answers 0.\<close>

definition write_answers :: "(nat \<Rightarrow> int \<Rightarrow> int) \<Rightarrow> bool" where
  "write_answers wr \<longleftrightarrow> (\<forall>k num. 0 < num \<longrightarrow> wr k num \<noteq> 0)"

lemma sendall_loop_ends:
  assumes "write_answers wr"
  shows "\<exists>r. sendall_loop wr buf len k tot (len - tot) n wire = Some r"
proof (induction "nat (len - tot)" arbitrary: k tot n wire rule: less_induct)
  case less
  let ?n = "wr k (len - tot)"
  show ?case
  proof (cases "tot < len \<and> 0 \<le> ?n")
    case True
    then have "?n \<noteq> 0" using assms by (auto simp: write_answers_def)
    with True have "nat (len - (tot + ?n)) < nat (len - tot)" by auto
    from less.hyps [OF this] True show ?thesis
      by (simp add: sendall_loop.simps [of wr buf len k tot] Let_def diff_diff_eq)
  qed (auto simp: sendall_loop.simps [of wr buf len k tot] Let_def)
qed

lemma sendall_no_hang: "write_answers wr \<Longrightarrow> no_hang (sendall wr buf len)"
  using sendall_loop_ends [of wr buf len 0 0 "- 1" "[]"] unfolding sendall_def
  by (auto intro!: hang_intros split: option.splits)

lemma readall_no_hang [hang_intros]: "no_hang (readall rd)"
proof -
  have "no_hang (readall_loop rd k tot buf)" for k tot buf
  proof (induction rd k tot buf rule: readall_loop.induct)
    case (1 rd k tot buf)
    then show ?case
      by (simp add: readall_loop.simps [of rd k tot buf] Let_def) (intro hang_intros conjI impI; simp)
  qed
  then show ?thesis unfolding readall_def split_def by (intro hang_intros)
qed

lemma print_calm [calm_intros]:
  "calm (print_line label t)" "calm (print_format msg)" "calm (showCerts p)" "calm (printSSLErr txt msg q)"
proof -
  show line: "calm (print_line label t)" for label t by (simp add: print_line_def calm_intros split: option.split)
  show format: "calm (print_format msg)" for msg by (simp add: print_format_def calm_intros split: option.split)
  show "calm (showCerts p)" by (simp add: showCerts_def calm_intros line split: option.split)
  show "calm (printSSLErr txt msg q)"
    by (simp add: printSSLErr_def split_def Let_def calm_intros line format)
qed

lemma validate_hostname_run_calm [calm_intros]: "calm (validate_hostname_run h c)"
  by (auto simp: validate_hostname_run_def san_calls_def intro!: calm_intros split: option.split)

lemma report_calm [calm_intros]: "calm (report e msg q)" "calm (ERR_print_errors_fp e q)"
  by (simp_all add: report_def ERR_print_errors_fp_def split_def calm_intros)

lemma initCTX_calm [calm_intros]: "calm (initServerCTX e)" "calm (initClientCTX e)" "calm (loadCerts e)"
  unfolding initServerCTX_def initClientCTX_def loadCerts_def by (intro calm_intros; simp)+

lemma destroySSL_calm [calm_intros]: "calm (destroySSL a b)"
  unfolding destroySSL_def by (intro calm_intros; simp)+

lemma shutdownSSL_calm: "cssl \<or> \<not> null_faults e \<Longrightarrow> calm (shutdownSSL e cssl)"
  unfolding shutdownSSL_def ossl_object_def by (intro calm_intros; simp)+

lemmas calm_hang [hang_intros] = report_calm [THEN calm_no_hang] initCTX_calm [THEN calm_no_hang]
  destroySSL_calm [THEN calm_no_hang] print_calm(3) [THEN calm_no_hang] validate_hostname_run_calm [THEN calm_no_hang]

lemma set_up_no_hang [hang_intros]: "no_hang (configServerSSL e s)"
  unfolding configServerSSL_def initSSL_def ossl_object_def shutdownSSL_def by (intro hang_intros)+

lemma showCerts_none:
  "showCerts None = ([Call ''SSL_get_peer_certificate''], Inr (''No certificates were found'' @ [CHR 0x0A]))"
  by (simp add: showCerts_def seq_emit)

lemma sendall_loop_stuck:
  assumes "\<forall>k. wr k left = 0" "tot < len"
  shows "sendall_loop wr buf len k tot left n wire = None"
proof (rule ccontr)
  assume "sendall_loop wr buf len k tot left n wire \<noteq> None"
  then obtain r where r: "sendall_loop wr buf len k tot left n wire = Some r" by blast
  have "(\<forall>k. wr k left = 0) \<longrightarrow> tot < len \<longrightarrow> False"
  proof (rule sendall_loop.raw_induct [OF _ r, where P = "\<lambda>wr buf len k tot left n wire r.
      (\<forall>k. wr k left = 0) \<longrightarrow> tot < len \<longrightarrow> False"], intro impI, goal_cases)
    case (1 f wr buf len k tot left n wire r)
    then have "f wr buf len (k + 1) tot left 0 wire = Some r" by (simp add: Let_def)
    from 1(1) [OF this] 1(3,4) show False by blast
  qed
  with assms show False by blast
qed

lemma fst_snd_seq:
  "fst (seq m k) = fst m @ (case snd m of Inl h \<Rightarrow> [] | Inr _ \<Rightarrow> fst k)"
  "snd (seq m k) = (case snd m of Inl h \<Rightarrow> Inl h | Inr _ \<Rightarrow> snd k)"
  by (auto simp: seq_def bind_def split: sum.splits)

lemma destroySSL_null:
  "seq (destroySSL False False) m =
     seq (emit (Call ''ERR_free_strings'')) (seq (emit (Call ''EVP_cleanup'')) (seq (emit (Call ''CRYPTO_cleanup_all_ex_data'')) m))"
  by (simp add: destroySSL_def seq_def bind_assoc)

lemma initSSL_ok:
  assumes "init_ssl e \<noteq> 0" "init_crypto e \<noteq> 0"
  shows "initSSL e = (map Call [''OPENSSL_init'', ''OPENSSL_init_ssl'', ''OPENSSL_init_crypto'', ''ERR_load_BIO_strings'',
    ''ERR_load_PEM_strings''], Inr ())"
  using assms by (simp add: initSSL_def seq_emit) (simp add: emit_def)

lemma initSSL_Inr: "snd (initSSL e) = Inr () \<longleftrightarrow> init_ssl e \<noteq> 0 \<and> init_crypto e \<noteq> 0"
  by (auto simp: initSSL_def seq_def bind_def emit_def ret_def halt_def)

lemma initClientCTX_snd: "snd (initClientCTX e) = Inr (if ctx_ok e then Some () else None)"
  using report_calm by (auto simp: initClientCTX_def seq_def bind_def emit_def ret_def calm_def split: sum.splits)

text \<open>A run that gives a socket back when it gives up: it returns with the socket open, or closes it as its last action,
  once, and exits with \<open>-1\<close>.\<close>

definition tidy :: "int \<Rightarrow> unit run \<Rightarrow> bool" where
  "tidy s m \<longleftrightarrow> (\<exists>l. Close s \<notin> set l \<and> (m = (l, Inr ()) \<or> m = (l @ [Close s], Inl (Exit (- 1)))))"

lemma tidy_ret: "tidy s (ret ())"
  by (auto simp: tidy_def ret_def)

lemma tidy_prefix: "Close s \<notin> set l \<Longrightarrow> tidy s (k x) \<Longrightarrow> tidy s (bind (l, Inr x) k)"
  unfolding tidy_def by (auto simp: bind_pair)

lemma tidy_calm: "calm m \<Longrightarrow> (\<And>x. snd m = Inr x \<Longrightarrow> tidy s (k x)) \<Longrightarrow> tidy s (bind m k)"
  by (erule calmE) (auto simp: list_all_iff intro!: tidy_prefix)

lemma tidy_seq: "calm m \<Longrightarrow> tidy s k \<Longrightarrow> tidy s (seq m k)"
  by (simp add: seq_def tidy_calm)

lemma tidy_close: "tidy s (seq (emit (Close s)) (halt (Exit (- 1))))"
  by (auto simp: tidy_def seq_emit)

lemma tidy_if: "(b \<Longrightarrow> tidy s m) \<Longrightarrow> (\<not> b \<Longrightarrow> tidy s k) \<Longrightarrow> tidy s (if b then m else k)"
  by simp

lemma tidy_client_fail: "ssl_new_ok e \<or> \<not> null_faults e \<Longrightarrow> tidy s (client_fail e s)"
  unfolding client_fail_def by (intro tidy_seq tidy_close calm_intros shutdownSSL_calm)

lemma configClientSSL_run:
  assumes "init_ssl e \<noteq> 0" "init_crypto e \<noteq> 0" "ctx_ok e" "ssl_new_ok e \<or> \<not> null_faults e"
  shows "tidy s (configClientSSL e s)"
proof -
  have init: "calm (initSSL e)" by (simp add: initSSL_ok [OF assms(1,2)] calm_pair)
  have obj: "calm (ossl_object e w (ctx \<noteq> None))" if "snd (initClientCTX e) = Inr ctx" for w ctx
    using that assms(3) by (auto simp: initClientCTX_snd ossl_object_def calm_intros)
  show ?thesis
    unfolding configClientSSL_def
    by (intro tidy_calm tidy_seq tidy_if tidy_close tidy_ret tidy_client_fail assms(4) init calm_intros; (erule obj | simp))
qed

lemma configClientSSL_Inr:
  "snd (configClientSSL e s) = Inr () \<longleftrightarrow>
     init_ssl e \<noteq> 0 \<and> init_crypto e \<noteq> 0 \<and> (ctx_ok e \<or> \<not> null_faults e) \<and> load_verify e = 1 \<and>
     ssl_new_ok e \<and> set_fd e \<noteq> 0 \<and> 0 < handshake e \<and>
     (\<exists>c. peer_cert e = Some c \<and> validate_hostname (Some ''devopsec.net'') (Some c) = MatchFound)"
proof -
  have fail: "snd (client_fail e s) \<noteq> Inr ()" "snd (seq m (client_fail e s)) \<noteq> Inr ()" for m
    by (auto simp: client_fail_def destroySSL_null seq_emit fst_snd_seq split: sum.splits)
  have init: "snd (bind (initSSL e) (\<lambda>_. m)) = Inr () \<longleftrightarrow> init_ssl e \<noteq> 0 \<and> init_crypto e \<noteq> 0 \<and> snd m = Inr ()"
    for m :: "unit run" using initSSL_Inr [of e] by (auto simp: bind_def split: sum.splits)
  have ctx: "snd (bind (initClientCTX e) k) = snd (k (if ctx_ok e then Some () else None))" for k :: "unit option \<Rightarrow> unit run"
    using initClientCTX_snd [of e] by (auto simp: bind_def)
  have cert: "snd (bind (showCerts p) (\<lambda>_. m)) = snd m" for p and m :: "unit run"
    by (intro calm_snd calm_intros)
  have seqs: "snd (seq (emit x) m) = snd m" for x and m :: "unit run" by (simp add: seq_emit)
  have host: "snd (bind (validate_hostname_run h c) k) = snd (k (validate_hostname h c))" for h c and k :: "_ \<Rightarrow> unit run"
    using validate_hostname_run_snd [of h c] by (simp add: bind_def)
  have rep: "snd (seq (report e msg q) m) = snd m" for msg q and m :: "unit run"
    unfolding seq_def by (intro calm_snd calm_intros)
  show ?thesis
    unfolding configClientSSL_def init ctx
    by (auto simp: ossl_object_def destroySSL_null seqs cert host rep fail)
qed

text \<open>The set-up never writes application data.\<close>

fun no_data :: "event \<Rightarrow> bool" where
  "no_data (SslWrite _) = False"
| "no_data (SockWrite _ _) = False"
| "no_data _ = True"

lemma quiet_no_data: "quiet e \<Longrightarrow> no_data e"
  by (cases e) simp_all

lemmas calm_no_data [log_intros] = report_calm [THEN calm_log, of no_data, OF quiet_no_data]
  initCTX_calm [THEN calm_log, of no_data, OF quiet_no_data] destroySSL_calm [THEN calm_log, of no_data, OF quiet_no_data]
  print_calm(3) [THEN calm_log, of no_data, OF quiet_no_data]
  validate_hostname_run_calm [THEN calm_log, of no_data, OF quiet_no_data]

lemma setup_no_data [log_intros]:
  "log_all no_data (initSSL e)" "log_all no_data (ossl_object e w b)" "log_all no_data (shutdownSSL e b)"
  unfolding initSSL_def shutdownSSL_def ossl_object_def by (intro log_intros; simp)+

lemma config_no_data [log_intros]: "log_all no_data (client_fail e s)" "log_all no_data (configClientSSL e s)"
  unfolding client_fail_def configClientSSL_def by (intro log_intros; simp)+

lemma faults_seq_bounds:
  "faults (seq (if P then ret () else emit (Fault f)) m) = (if P then [] else [Fault f]) @ faults m"
  "snd (seq (if P then ret () else emit (Fault f)) m) = snd m"
  by (simp_all add: faults_def seq_emit)


section \<open>Lemmas on receiving\<close>

text \<open>
  \<open>delivers rd k cs st\<close>: from the \<open>k\<close>-th on, the calls of \<^verbatim>\<open>SSL_read\<close> deliver the chunks \<open>cs\<close>
  and the next one has status \<open>st\<close> (0 at the end of the connection, negative for an error).
\<close>

fun delivers :: "(nat \<Rightarrow> int \<times> string) \<Rightarrow> nat \<Rightarrow> string list \<Rightarrow> int \<Rightarrow> bool" where
  "delivers rd k [] st \<longleftrightarrow> fst (rd k) = st"
| "delivers rd k (c # cs) st \<longleftrightarrow> rd k = (int (length c), c) \<and> c \<noteq> [] \<and> delivers rd (k + 1) cs st"

lemma readall_loop_delivers:
  assumes "delivers rd k cs st" "st \<le> 0" "0 \<le> tot" "tot + int (length (concat cs)) \<le> SOCK_BUFF_MAX_READ"
  shows "snd (readall_loop rd k tot buf) = Inr (st, buf @ concat cs) \<and>
    (faults (readall_loop rd k tot buf) = [] \<longleftrightarrow>
       cs = [] \<or> tot + int (length (concat cs)) \<le> SOCK_BUFF_DEF_READ)"
  using assms
proof (induction cs arbitrary: k tot buf)
  case Nil
  then show ?case
    by (auto simp: readall_loop.simps [of rd k] Let_def seq_emit faults_def)
next
  case (Cons c cs)
  let ?t = "tot + int (length c)"
  from Cons.prems have c: "rd k = (int (length c), c)" "0 < int (length c)" "delivers rd (k + 1) cs st"
    by auto
  have b: "?t + int (length (concat cs)) \<le> SOCK_BUFF_MAX_READ" "0 \<le> ?t" using Cons.prems by auto
  note IH = Cons.IH [OF c(3) assms(2) b(2,1)]
  have "cs = [] \<Longrightarrow> length (concat cs) = 0" by simp
  with IH c b show ?case
    by (auto simp: readall_loop.simps [of rd k] Let_def faults_seq_bounds)
qed


section \<open>Properties\<close>

text \<open>A set-up in which every call succeeds up to the handshake, which fails. The error queue holds one code.\<close>

definition sample_env :: ssl_env where
  "sample_env = \<lparr> init_ssl = 1, init_crypto = 1, ctx_ok = True, load_verify = 1, use_cert = 1, use_key = 1,
     check_key = True, ssl_new_ok = True, set_fd = 1, handshake = - 1, peer_cert = None,
     peer_names = \<lparr>subject_line = None, issuer_line = None\<rparr>, shutdown1 = 0,
     null_faults = True, method_ok = True, verify_ok = True, verify_text = ''ok'', shutdown2 = 1, ssl_failure = False,
     state_text = ''SSLERR'',
     err_text = \<lparr>reason = (\<lambda>n. if n = 0 then None else Some ''bad certificate''), errstr = nat_digits, errline = nat_digits\<rparr>,
     queued = (\<lambda>_. [17]) \<rparr>"

text \<open>C11. \<^verbatim>\<open>sendall\<close> on a connection whose writes all accept at least one byte (and never more than
  asked): it terminates, the whole buffer reaches the wire in order and nothing else does, the status is
  0 and \<^verbatim>\<open>*len\<close> is the length of the buffer. How the connection cuts the writes does not matter.\<close>

theorem sendall_sends_all:
  assumes "write_progress wr" "buf \<noteq> []"
  shows "sendall wr buf (int (length buf)) = ([SslWrite buf], Inr (0, int (length buf)))"
  by (rule sendall_complete [OF assms])

theorem sendall_sends_all_witness:
  "sendall (\<lambda>k num. min num 2) ''HTTP/1.1'' 8 = ([SslWrite ''HTTP/1.1''], Inr (0, 8))"
  using sendall_sends_all [of "\<lambda>k num. min num 2" "''HTTP/1.1''"] by (simp add: write_progress_def)

text \<open>C29. Whatever the writes do, as long as none claims more than it was given: if \<^verbatim>\<open>sendall\<close> returns,
  the bytes on the wire are exactly the first \<^verbatim>\<open>*len\<close> bytes of the buffer, no access leaves the buffer,
  and a status of 0 means that all of it was sent. So a caller can resume from \<^verbatim>\<open>*len\<close> after an error.\<close>

theorem sendall_reports:
  assumes "write_bounded wr" "snd (sendall wr buf (int (length buf))) = Inr (st, t)"
  shows "0 \<le> t \<and> t \<le> int (length buf) \<and> (st = 0 \<longrightarrow> t = int (length buf)) \<and>
    fst (sendall wr buf (int (length buf))) = (if t = 0 then [] else [SslWrite (take (nat t) buf)])"
proof -
  from assms(2) obtain n wire where
    s: "sendall_loop wr buf (int (length buf)) 0 0 (int (length buf)) (- 1) [] = Some (n, t, wire)"
      and st: "st = (if n < 0 then n else 0)"
    by (auto simp: sendall_def seq_emit split: option.splits if_splits prod.splits)
  have "0 \<le> t \<and> t \<le> int (length buf) \<and> wire = take (nat t) buf \<and> (0 \<le> n \<longrightarrow> t = int (length buf))"
    using sendall_loop_sound [OF s] assms(1) by simp
  then show ?thesis using s st by (auto simp: sendall_def seq_emit)
qed


theorem sendall_reports_witness:
  "let wr = (\<lambda>k num. if k = 0 then min num 3 else - 1); r = sendall wr ''hello'' 5
   in snd r = Inr (- 1, 3) \<and> fst r = [SslWrite ''hel'']"
proof -
  let ?wr = "\<lambda>k num. if k = 0 then min num 3 else - 1"
  have loop: "sendall_loop ?wr ''hello'' 5 0 0 5 (- 1) [] = Some (- 1, 3, ''hel'')"
    by (simp add: sendall_loop.simps Let_def)
  have "write_bounded ?wr" "snd (sendall ?wr ''hello'' (int (length ''hello''))) = Inr (- 1, 3)"
    by (simp_all add: write_bounded_def sendall_def loop seq_emit)
  from this(2) sendall_reports [OF this] show ?thesis by (simp add: Let_def)
qed

text \<open>The two corners of \<^verbatim>\<open>sendall\<close>. An empty buffer reports the failure status \<open>-1\<close> although there was
  nothing to send; and when \<^verbatim>\<open>SSL_write\<close> keeps answering 0, which the loop does not take for a failure,
  \<^verbatim>\<open>sendall\<close> never returns.\<close>

theorem sendall_corners:
  "sendall wr [] 0 = ret (- 1, 0) \<and>
   (buf \<noteq> [] \<longrightarrow> sendall (\<lambda>k num. 0) buf (int (length buf)) = halt Hang)"
  by (simp add: sendall_def sendall_loop.simps [of wr "[]"] sendall_loop_stuck)

theorem sendall_corners_witness:
  "''x'' \<noteq> [] \<and> sendall (\<lambda>k num. 0) ''x'' 1 = halt Hang"
  using sendall_corners [of "\<lambda>k num. 0" "''x''"] by simp

text \<open>C22. \<^verbatim>\<open>readall\<close> collects every chunk in order up to the end of the connection or an error, terminates,
  and returns 0 or the error. All of this holds up to \<^verbatim>\<open>SOCK_BUFF_MAX_READ\<close> bytes; but the accesses stay
  inside the callers' buffer exactly when the whole message fits \<^verbatim>\<open>SOCK_BUFF_DEF_READ\<close>: the check compares
  with the larger constant, so a longer message overruns the buffer.\<close>

theorem readall_reads_all:
  assumes "delivers rd 0 cs st" "st \<le> 0" "int (length (concat cs)) \<le> SOCK_BUFF_MAX_READ"
  shows "snd (readall rd) = Inr (if st < 0 then st else 0, concat cs) \<and>
    (faults (readall rd) = [] \<longleftrightarrow> int (length (concat cs)) \<le> SOCK_BUFF_DEF_READ)"
proof -
  have *: "snd (readall_loop rd 0 0 []) = Inr (st, concat cs)"
    "faults (readall_loop rd 0 0 []) = [] \<longleftrightarrow> cs = [] \<or> int (length (concat cs)) \<le> SOCK_BUFF_DEF_READ"
    using readall_loop_delivers [OF assms(1,2), of 0 "[]"] assms(3) by auto
  have "cs = [] \<Longrightarrow> int (length (concat cs)) \<le> SOCK_BUFF_DEF_READ" by (simp add: SOCK_BUFF_DEF_READ_def)
  with * show ?thesis by (auto simp: readall_def bind_def faults_def)
qed

theorem readall_reads_all_witness:
  "let rd = (\<lambda>k. if k = 0 then (4, ''GET '') else if k = 1 then (1, ''/'') else (0, []))
   in snd (readall rd) = Inr (0, ''GET /'') \<and> faults (readall rd) = []"
  using readall_reads_all [of "\<lambda>k. if k = 0 then (4, ''GET '') else if k = 1 then (1, ''/'') else (0, [])"
      "[''GET '', ''/'']" 0]
  by (simp add: SOCK_BUFF_MAX_READ_def SOCK_BUFF_DEF_READ_def Let_def)

text \<open>C17. The client only gets a connection out of \<^verbatim>\<open>configClientSSL\<close> when every step succeeded: the
  trust store is loaded, the handshake is done, the server sent a certificate and that certificate is
  valid for \<open>devopsec.net\<close>. (The remaining disjuncts are the objects OpenSSL could not create.)\<close>

theorem configClientSSL_authenticates:
  "snd (configClientSSL e s) = Inr () \<longleftrightarrow>
     init_ssl e \<noteq> 0 \<and> init_crypto e \<noteq> 0 \<and> (ctx_ok e \<or> \<not> null_faults e) \<and> load_verify e = 1 \<and>
     ssl_new_ok e \<and> set_fd e \<noteq> 0 \<and> 0 < handshake e \<and>
     (\<exists>c. peer_cert e = Some c \<and> validate_hostname (Some ''devopsec.net'') (Some c) = MatchFound)"
  by (rule configClientSSL_Inr)

theorem configClientSSL_authenticates_witness:
  "snd (configClientSSL (sample_env\<lparr>handshake := 1, peer_cert := Some devopsec_cert\<rparr>) 3) = Inr ()"
proof -
  have "validate_hostname (Some ''devopsec.net'') (Some devopsec_cert) = MatchFound" by code_simp
  then show ?thesis by (simp add: configClientSSL_authenticates sample_env_def)
qed



text \<open>The server side: a peer whose handshake fails ends the server process (exit status 1), without the
  worker socket being closed first, and only a completed handshake lets \<^verbatim>\<open>configServerSSL\<close> return; neither a
  missing certificate nor a private key that does not match stops it.\<close>

lemma configServerSSL_snd:
  assumes "init_ssl e \<noteq> 0" "init_crypto e \<noteq> 0" "ctx_ok e" "ssl_new_ok e"
  shows "snd (configServerSSL e s) = (if handshake e \<le> 0 then Inl (Exit 1) else Inr ())"
proof -
  have ctx: "snd (bind (initServerCTX e) k) = snd (k (Some ()))" for k :: "unit option \<Rightarrow> unit run"
    using report_calm(1) [of e] assms(3) by (auto simp: initServerCTX_def seq_def bind_def emit_def ret_def calm_def)
  have step: "snd (seq m k) = snd k" if "calm m" for m and k :: "unit run"
    unfolding seq_def by (rule calm_snd [OF that])
  have shut: "calm (shutdownSSL e True)" by (rule shutdownSSL_calm) simp
  have steps: "snd (bind (initSSL e) (\<lambda>_. k)) = snd k" "snd (bind (loadCerts e) (\<lambda>_. k)) = snd k"
    "snd (bind (showCerts None) (\<lambda>_. k)) = snd k" for k :: "unit run"
    by (intro calm_snd calm_intros; simp add: initSSL_ok [OF assms(1,2)] calm_pair)+
  show ?thesis
    using assms(4) by (simp add: configServerSSL_def steps ctx ossl_object_def step calm_intros shut)
qed

lemma configServerSSL_quiet: "log_all quiet (configServerSSL e s)"
  unfolding configServerSSL_def initSSL_def ossl_object_def shutdownSSL_def
  by (intro log_intros calm_intros [THEN calm_log]; simp)

theorem configServerSSL_handshake:
  assumes "init_ssl e \<noteq> 0" "init_crypto e \<noteq> 0" "ctx_ok e" "ssl_new_ok e"
  shows "snd (configServerSSL e s) = (if handshake e \<le> 0 then Inl (Exit 1) else Inr ()) \<and>
    Close s \<notin> set (fst (configServerSSL e s)) \<and>
    snd (configServerSSL (e\<lparr>use_cert := a, use_key := b, check_key := c\<rparr>) s) = snd (configServerSSL e s)"
  using assms configServerSSL_quiet [of e s] by (auto simp: configServerSSL_snd log_all_def list_all_iff)

theorem configServerSSL_handshake_witness:
  "snd (configServerSSL sample_env 4) = Inl (Exit 1)"
  using configServerSSL_handshake [of sample_env 4] by (simp add: sample_env_def)

section \<open>What the client says when it gives up\<close>

text \<open>The texts a run writes to standard error, in order.\<close>

definition stderr_of :: "event list \<Rightarrow> string list" where
  "stderr_of l = concat (map (\<lambda>x. case x of Stderr t \<Rightarrow> [t] | _ \<Rightarrow> []) l)"

lemma stderr_of_simps [simp]:
  "stderr_of [] = []" "stderr_of (l @ l') = stderr_of l @ stderr_of l'" "stderr_of (Stderr t # l) = t # stderr_of l"
  "stderr_of (Call c # l) = stderr_of l" "stderr_of (Close n # l) = stderr_of l" "stderr_of (Fault f # l) = stderr_of l"
  "stderr_of (map Call cs) = []"
  by (simp_all add: stderr_of_def comp_def)

text \<open>
  The set-up as a list of checks, in the order of the code, each with the message that belongs to its failure, and the
  first of them that fails.
\<close>

definition client_checks :: "ssl_env \<Rightarrow> (bool \<times> string) list" where
  "client_checks e =
     [(load_verify e = 1, ''SSL_CTX_load_verify_locations() error: Couldn't load CA Stack''),
      (ssl_new_ok e, ''SSL_new() error: Could not create SSL struct''),
      (set_fd e \<noteq> 0, ''SSL_set_fd() error: Could not attach to sock''),
      (0 < handshake e,
        if verify_ok e then ''SSL_accept() error: handshake was not successful (Fatal Error)''
        else ''SSL_accept() error: Certificate Chain validation failed (Fatal Error):''),
      (peer_cert e \<noteq> None, ''SSL_get_peer_certificate() error: Server did not provide a certificate''),
      (validate_hostname (Some ''devopsec.net'') (peer_cert e) = MatchFound, ''Hostname validation failed.'')]"

fun first_failure :: "(bool \<times> string) list \<Rightarrow> string option" where
  "first_failure [] = None"
| "first_failure ((ok, msg) # cs) = (if ok then first_failure cs else Some msg)"

text \<open>A run says nothing and returns, or exits with \<open>-1\<close> after a first message that begins with the given one.\<close>

definition says :: "string option \<Rightarrow> unit run \<Rightarrow> bool" where
  "says failure m \<longleftrightarrow>
     (case failure of
        None \<Rightarrow> snd m = Inr () \<and> stderr_of (fst m) = []
      | Some msg \<Rightarrow> snd m = Inl (Exit (- 1)) \<and> (\<exists>t ts. stderr_of (fst m) = (msg @ t) # ts))"

lemma says_ret: "says (first_failure []) (ret ())"
  by (simp add: says_def)

lemma says_if:
  assumes "c \<longleftrightarrow> \<not> ok" "c \<Longrightarrow> says (Some msg) m" "\<not> c \<Longrightarrow> says (first_failure cs) k"
  shows "says (first_failure ((ok, msg) # cs)) (if c then m else k)"
  using assms by simp

lemma says_bind: "m = (l, Inr x) \<Longrightarrow> stderr_of l = [] \<Longrightarrow> says f (k x) \<Longrightarrow> says f (bind m k)"
  by (auto simp: says_def bind_pair split: option.splits)

lemma says_call: "says f m \<Longrightarrow> says f (seq (emit (Call c)) m)"
  by (auto simp: says_def seq_emit split: option.splits)

lemma says_stderr: "snd m = Inl (Exit (- 1)) \<Longrightarrow> says (Some msg) (seq (emit (Stderr (msg @ t))) m)"
  by (auto simp: says_def seq_emit)

lemma says_report:
  assumes "CHR ''%'' \<notin> set msg" "snd m = Inl (Exit (- 1))"
  shows "says (Some msg) (seq (report e msg q) m)"
proof -
  have "\<exists>l t. report e msg q = (l @ [Stderr (msg @ t)], Inr ()) \<and> stderr_of l = []"
    using assms(1)
    by (auto simp: report_def printSSLErr_def print_format_def cformat_plain print_line_def split_def bind_def seq_def
        emit_def ret_def Let_def split: option.splits)
  then obtain l t where "report e msg q = (l @ [Stderr (msg @ t)], Inr ())" "stderr_of l = []" by blast
  then show ?thesis using assms(2) by (auto simp: says_def seq_def bind_pair)
qed

lemma showCerts_silent:
  obtains l out where "showCerts p = (l, Inr out)" "stderr_of l = []"
proof (rule showCerts_run [of p])
  fix l out
  assume "showCerts p = (l, Inr out)"
    "list_all (\<lambda>x. is_fault x \<or> x \<in> {Call ''SSL_get_peer_certificate'', Call ''free line'', Call ''X509_free''}) l"
  moreover from this(2) have "stderr_of l = []"
    by (auto simp: list_all_iff stderr_of_def elim!: is_fault.elims split: event.splits)
  ultimately show thesis using that by blast
qed

lemma validate_silent:
  obtains l where "validate_hostname_run h c = (l, Inr (validate_hostname h c))" "stderr_of l = []"
proof -
  have "stderr_of (fst (validate_hostname_run h c)) = []"
    by (cases h; cases c) (simp_all add: validate_hostname_run_log, simp_all add: validate_hostname_run_def)
  with that validate_hostname_run_snd [of h c] show thesis by (cases "validate_hostname_run h c") auto
qed



text \<open>A server whose context could not be created reports it twice. The first report empties the error queue, so the second
  one looks up the reason of the code 0: OpenSSL has none, and NULL is handed to a \<^verbatim>\<open>%s\<close>, before the calls on the NULL
  context.\<close>

theorem configServerSSL_null_reason:
  assumes "init_ssl e \<noteq> 0" "init_crypto e \<noteq> 0" "\<not> ctx_ok e" "reason (err_text e) 0 = None"
  shows "Fault (NullDeref ''Error: '') \<in> set (fst (configServerSSL e s))"
proof -
  have ctx: "snd (initServerCTX e) = Inr None"
    using assms(3) report_calm [of e] by (auto simp: initServerCTX_def seq_def bind_def emit_def ret_def calm_def)
  have "Fault (NullDeref ''Error: '') \<in> set (fst (report e ''initServerCTX() error: ctx is NULL'' []))"
    using assms(4) by (simp add: report_def printSSLErr_def print_format_def cformat_plain print_line_def bind_pair seq_emit)
  with ctx show ?thesis
    by (simp add: configServerSSL_def initSSL_ok [OF assms(1,2)] bind_pair) (simp add: bind_def fst_snd_seq)
qed

theorem configServerSSL_null_reason_witness:
  "Fault (NullDeref ''Error: '') \<in> set (fst (configServerSSL (sample_env\<lparr>ctx_ok := False\<rparr>) 4))"
  using configServerSSL_null_reason [of "sample_env\<lparr>ctx_ok := False\<rparr>" 4] by (simp add: sample_env_def)

end
