(* ===== verification/Request.thy ===== *)
theory Request
  imports C_Prelude StringOps Oop_Dict FawkesProto
begin

text \<open>
  The request parser of \<^verbatim>\<open>src/server/server.h\<close>: \<^verbatim>\<open>parseHeader\<close>, \<^verbatim>\<open>parseQueryStr\<close> and
  \<^verbatim>\<open>parseRequest\<close>, on the tokenizer, the dictionary and the information byte. Allocations succeed.
  The buffers for the path and the body have \<^verbatim>\<open>sizeof(char*)\<close>, that is eight, bytes.
\<close>

section \<open>The parsed request\<close>

datatype cbuf = Uninit | Null | Str string

record request =
  info :: u8
  path :: string
  headers :: "string dict"
  body :: cbuf
  query :: "string dict"


section \<open>Headers\<close>

text \<open>
  The test \<^verbatim>\<open>tmp != "" || tmp != NULL\<close> compares pointers and always holds. Without a colon only cell 0 of
  the result is written.
\<close>

definition parseHeader :: "cptr \<Rightarrow> carr run" where
  "parseHeader str =
     bind (deref ''str'' str) (\<lambda>s.
       case strstr s '': '' of
         Some n \<Rightarrow>
           seq (guard_bounds ''save'' (length s) n)
           (ret \<lparr>cells = [Some (take n s), Some (drop (n + 2) s)], acap = 2\<rparr>)
       | None \<Rightarrow> ret \<lparr>cells = [Some s], acap = 2\<rparr>)"

text \<open>
  The loop over the header lines. \<^verbatim>\<open>tokens[i] == ""\<close> compares pointers and never holds; the branch for a
  NULL value steps back before the loop steps forward, so it would repeat for ever. The test on the
  length of the array only serves the termination argument: past the cells that were written the read
  of \<^verbatim>\<open>tokens[i]\<close> has that outcome anyway.
\<close>

function header_loop :: "carr \<Rightarrow> nat \<Rightarrow> nat \<Rightarrow> string dict \<Rightarrow> string dict run" where
  "header_loop tokens bound i d =
     (if i < bound then
        if length (cells tokens) \<le> i then halt (Crash (UninitRead ''tokens''))
        else
          bind (arr_get ''tokens'' tokens i) (\<lambda>line.
          bind (parseHeader line) (\<lambda>header.
          bind (arr_get ''header'' header 1) (\<lambda>val.
            if val = None then halt Hang
            else
              bind (arr_get ''header'' header 0) (\<lambda>key.
              bind (setTuple d key val) (\<lambda>(st, d'). header_loop tokens bound (i + 1) d')))))
      else ret d)"
  by pat_completeness auto
termination
  by (relation "measure (\<lambda>(tokens, bound, i, d). length (cells tokens) - i)") auto

declare header_loop.simps [simp del]


section \<open>The query string\<close>

text \<open>
  The loop over the parameters; \<open>res\<close> are the cells of \<^verbatim>\<open>result\<close> written so far, \<open>rcap\<close> their number. A
  part without \<open>=\<close> or with nothing after it gives one cell, not two. An empty part declares \<^verbatim>\<open>save\<close> with
  length 0.
\<close>

function query_parts :: "carr \<Rightarrow> nat \<Rightarrow> nat \<Rightarrow> nat \<Rightarrow> cptr list \<Rightarrow> cptr list run" where
  "query_parts sub_tokens rcap count i res =
     (if i < count then
        bind (arr_get ''sub_tokens'' sub_tokens i) (\<lambda>p.
        bind (deref ''sub_str'' p) (\<lambda>sub_str.
          seq (if sub_str = [] then emit (Fault (OutOfBounds ''char save[0]'')) else ret ())
          (case strstr sub_str ''='' of
             Some n \<Rightarrow>
               seq (guard_bounds ''save'' (length sub_str) n)
               (seq (guard_bounds ''result'' rcap (length res))
                (let res1 = res @ [Some (take n sub_str)]; rest = drop (n + 1) sub_str in
                 if rest \<noteq> [] then
                   seq (guard_bounds ''result'' rcap (length res1))
                   (query_parts sub_tokens rcap count (i + 1) (res1 @ [Some rest]))
                 else query_parts sub_tokens rcap count (i + 1) res1))
           | None \<Rightarrow>
               if sub_str \<noteq> [] then
                 seq (guard_bounds ''result'' rcap (length res))
                 (query_parts sub_tokens rcap count (i + 1) (res @ [Some sub_str]))
               else query_parts sub_tokens rcap count (i + 1) res)))
      else ret res)"
  by pat_completeness auto
termination
  by (relation "measure (\<lambda>(sub_tokens, rcap, count, i, res). count - i)") auto

declare query_parts.simps [simp del]

text \<open>The result is the array and what \<^verbatim>\<open>*num_qtokens\<close> is set to.\<close>

definition parseQueryStr :: "cptr \<Rightarrow> (carr \<times> nat) run" where
  "parseQueryStr str =
     bind (strsplit True True str ''?'') (\<lambda>(toks, _).
     bind (deref ''tokens'' toks) (\<lambda>tokens.
     bind (arr_get ''tokens'' tokens 1) (\<lambda>t1.
     bind (strsplit True True t1 ''&'') (\<lambda>(subs, count).
     bind (deref ''sub_tokens'' subs) (\<lambda>sub_tokens.
       let rcap = count * 2 + 1 in
       bind (arr_get ''tokens'' tokens 0) (\<lambda>t0.
       bind (deref ''tokens[0]'' t0) (\<lambda>p.
       bind (query_parts sub_tokens rcap count 0 [Some p]) (\<lambda>res.
         seq (guard_bounds ''result'' rcap (length res))
         (ret (\<lparr>cells = res @ [None], acap = rcap\<rparr>, length res))))))))))"

function query_loop :: "carr \<Rightarrow> nat \<Rightarrow> nat \<Rightarrow> string dict \<Rightarrow> string dict run" where
  "query_loop query_tokens n i d =
     (if i < n then
        bind (arr_get ''query_tokens'' query_tokens i) (\<lambda>key.
        bind (arr_get ''query_tokens'' query_tokens (i + 1)) (\<lambda>val.
        bind (setTuple d key val) (\<lambda>(st, d'). query_loop query_tokens n (i + 2) d')))
      else ret d)"
  by pat_completeness auto
termination
  by (relation "measure (\<lambda>(query_tokens, n, i, d). n - i)") auto

declare query_loop.simps [simp del]

section \<open>The request\<close>

text \<open>The search for the empty line; the token after it is the body.\<close>

function body_loop :: "carr \<Rightarrow> nat \<Rightarrow> nat \<Rightarrow> cbuf run" where
  "body_loop tokens n i =
     (if i < n then
        bind (arr_get ''tokens'' tokens i) (\<lambda>t.
          if t = Some [] then
            bind (arr_get ''tokens'' tokens (i + 1)) (\<lambda>b.
              case b of
                Some s \<Rightarrow> seq (guard_bounds ''body'' 8 (length s)) (ret (Str s))
              | None \<Rightarrow> ret Null)
          else body_loop tokens n (i + 1))
      else ret Uninit)"
  by pat_completeness auto
termination
  by (relation "measure (\<lambda>(tokens, n, i). n - i)") auto

declare body_loop.simps [simp del]

text \<open>\<^verbatim>\<open>*num_tokens - 2\<close> is a \<^verbatim>\<open>size_t\<close>.\<close>

definition header_bound :: "nat \<Rightarrow> nat" where
  "header_bound n = (n + 2 ^ 64 - 2) mod 2 ^ 64"

text \<open>The path and the query dictionary out of the request target.\<close>

definition parse_target :: "cptr \<Rightarrow> (string \<times> string dict) run" where
  "parse_target target =
     bind (initDict True True True 20) (\<lambda>q.
     bind (deref ''sub_tokens[1]'' target) (\<lambda>t.
       if CHR ''?'' \<notin> set t then seq (guard_bounds ''path'' 8 (length t)) (ret (t, q))
       else
         bind (parseQueryStr target) (\<lambda>(query_tokens, num).
         bind (arr_get ''query_tokens'' query_tokens 0) (\<lambda>p0.
         bind (deref ''query_tokens[0]'' p0) (\<lambda>p.
           seq (guard_bounds ''path'' 8 (length p))
           (bind (query_loop query_tokens num 1 q) (\<lambda>q'.
            bind (arr_get ''query_tokens'' query_tokens 1) (\<lambda>_.
            bind (arr_get ''query_tokens'' query_tokens 2) (\<lambda>_. ret (p, q'))))))))))"

definition parseRequest :: "cptr \<Rightarrow> request run" where
  "parseRequest req =
     bind (strsplit True True req crlf) (\<lambda>(toks, num_tokens).
     bind (deref ''tokens'' toks) (\<lambda>tokens.
     bind (arr_get ''tokens'' tokens 0) (\<lambda>t0.
     bind (strsplit True True t0 '' '') (\<lambda>(subs, num_sub_tokens).
     bind (deref ''sub_tokens'' subs) (\<lambda>sub_tokens.
     bind (initDict True True True 50) (\<lambda>hd0.
     bind (arr_get ''sub_tokens'' sub_tokens 1) (\<lambda>target.
     bind (parse_target target) (\<lambda>(p, q).
     bind (header_loop tokens (header_bound num_tokens) 1 hd0) (\<lambda>hs.
     bind (body_loop tokens num_tokens 0) (\<lambda>b.
     bind (arr_get ''sub_tokens'' sub_tokens 2) (\<lambda>proto.
     bind (encodeProto proto 0) (\<lambda>i1.
     bind (arr_get ''sub_tokens'' sub_tokens 0) (\<lambda>method.
     bind (encodeMethod method i1) (\<lambda>i2.
       ret \<lparr>info = encodeReqmts i2, path = p, headers = hs, body = b, query = q\<rparr>))))))))))))))"

section \<open>Requests as a client writes them\<close>

definition avoids :: "string \<Rightarrow> string \<Rightarrow> bool" where
  "avoids cs s \<longleftrightarrow> (\<forall>c \<in> set cs. c \<notin> set s)"

definition header_line :: "string \<times> string \<Rightarrow> string" where
  "header_line kv = fst kv @ '': '' @ snd kv"

definition query_part :: "string \<times> string \<Rightarrow> string" where
  "query_part kv = fst kv @ ''='' @ snd kv"

definition render_target :: "string \<Rightarrow> (string \<times> string) list \<Rightarrow> string" where
  "render_target p qs = (if qs = [] then p else p @ ''?'' @ join_with ''&'' (map query_part qs))"

definition request_line :: "string \<Rightarrow> string \<Rightarrow> string \<Rightarrow> string" where
  "request_line m t pr = m @ '' '' @ t @ '' '' @ pr"

definition render_lines :: "string \<Rightarrow> string \<Rightarrow> (string \<times> string) list \<Rightarrow> string \<Rightarrow> (string \<times> string) list \<Rightarrow>
    string list \<Rightarrow> string" where
  "render_lines m p qs pr hs bs =
     join_with crlf (request_line m (render_target p qs) pr # map header_line hs @ [] # bs)"

abbreviation render_request where
  "render_request m p qs pr hs b \<equiv> render_lines m p qs pr hs [b]"

text \<open>What keeps the parts of a request apart.\<close>

definition request_ok :: "string \<Rightarrow> string \<Rightarrow> (string \<times> string) list \<Rightarrow> string \<Rightarrow> (string \<times> string) list \<Rightarrow>
    string list \<Rightarrow> bool" where
  "request_ok m p qs pr hs bs \<longleftrightarrow>
     avoids [CHR 0x0D, CHR '' '', NUL] m \<and> avoids [CHR 0x0D, CHR '' '', CHR ''?''] p \<and>
     avoids [CHR 0x0D, CHR '' '', NUL] pr \<and> pr \<noteq> [] \<and>
     (\<forall>(k, v) \<in> set qs. avoids [CHR 0x0D, CHR '' '', CHR ''?'', CHR ''&'', CHR ''='', NUL] k \<and>
        avoids [CHR 0x0D, CHR '' '', CHR ''?'', CHR ''&''] v \<and> v \<noteq> []) \<and>
     (\<forall>(k, v) \<in> set hs. avoids [CHR 0x0D, CHR '':'', NUL] k \<and> avoids [CHR 0x0D] v) \<and>
     (\<forall>b \<in> set bs. avoids [CHR 0x0D] b)"

definition some_snd :: "(string \<times> string) list \<Rightarrow> (string \<times> string option) list" where
  "some_snd kvs = map (\<lambda>(k, v). (k, Some v)) kvs"

text \<open>The faults of an overrun.\<close>

definition over :: "string \<Rightarrow> bool \<Rightarrow> event list" where
  "over obj b = (if b then [Fault (OutOfBounds obj)] else [])"

lemma guard_bounds_over: "seq (guard_bounds obj cap i) k = (over obj (cap \<le> i) @ fst k, snd k)"
  by (simp add: guard_bounds_def seq_emit over_def)

lemma over_simps [simp]: "over obj False = []" "over obj True = [Fault (OutOfBounds obj)]"
  by (simp_all add: over_def)


section \<open>The loops on well-formed lines\<close>

lemma header_bound_eq:
  assumes "2 \<le> n" "n < 2 ^ 64"
  shows "header_bound n = n - 2"
proof -
  have "n + 2 ^ 64 - 2 = (n - 2) + 2 ^ 64" using assms(1) by simp
  then have "header_bound n = ((n - 2) + 2 ^ 64) mod 2 ^ 64" unfolding header_bound_def by argo
  also have "\<dots> = (n - 2) mod 2 ^ 64" by (rule mod_add_self2)
  also have "\<dots> = n - 2" using assms(2) by (intro mod_less) linarith
  finally show ?thesis .
qed

lemma parseHeader_line:
  assumes "CHR '':'' \<notin> set k"
  shows "parseHeader (Some (header_line (k, v))) = ret \<lparr>cells = [Some k, Some v], acap = 2\<rparr>"
  using strstr_skip [of "'': ''" k v] assms
  by (simp add: parseHeader_def header_line_def)

lemma header_loop_lines:
  assumes "cells a = pre @ map (\<lambda>kv. Some (header_line kv)) hs @ post" "length pre + length hs \<le> acap a"
    "\<forall>(k, v) \<in> set hs. CHR '':'' \<notin> set k" "bound = length pre + length hs + extra"
  shows "header_loop a bound (length pre) d =
    bind (dict_store.put_all d (some_snd hs)) (\<lambda>d'. header_loop a bound (length pre + length hs) d')"
  using assms
proof (induction hs arbitrary: pre d)
  case Nil
  then show ?case by (simp add: some_snd_def)
next
  case (Cons h hs)
  obtain k v where h: "h = (k, v)" by fastforce
  from Cons.prems have get: "arr_get ''tokens'' a (length pre) = ret (Some (header_line h))"
    "length pre < length (cells a)" "length pre < bound" by (simp_all add: arr_get_def nth_append)
  have hdr: "parseHeader (Some (header_line h)) = ret \<lparr>cells = [Some k, Some v], acap = 2\<rparr>"
    using Cons.prems(3) h by (simp add: parseHeader_line)
  have IH: "header_loop a bound (length (pre @ [Some (header_line h)])) d' =
      bind (dict_store.put_all d' (some_snd hs))
        (\<lambda>d'. header_loop a bound (length (pre @ [Some (header_line h)]) + length hs) d')" for d'
    using Cons.prems by (intro Cons.IH) auto
  show ?case
    using get hdr IH
    by (simp add: header_loop.simps [of a bound "length pre"] arr_get_in h some_snd_def bind_assoc split_def)
qed

lemma header_loop_stop: "bound \<le> i \<Longrightarrow> header_loop a bound i d = ret d"
  by (simp add: header_loop.simps)

text \<open>A line without \<open>": "\<close> leaves cell 1 of the header unwritten.\<close>

lemma header_loop_no_colon:
  assumes "cells a ! i = Some s" "i < length (cells a)" "i < acap a" "i < bound" "strstr s '': '' = None"
  shows "header_loop a bound i d = halt (Crash (UninitRead ''header''))"
  using assms by (simp add: header_loop.simps [of a bound i] arr_get_def parseHeader_def)

lemma query_parts_pairs:
  assumes "cells a = pre @ map (\<lambda>kv. Some (query_part kv)) qs @ post" "length pre + length qs \<le> acap a"
    "count = length pre + length qs" "length res + 2 * length qs \<le> rcap"
    "\<forall>(k, v) \<in> set qs. CHR ''='' \<notin> set k \<and> v \<noteq> []"
  shows "query_parts a rcap count (length pre) res = ret (res @ concat (map (\<lambda>(k, v). [Some k, Some v]) qs))"
  using assms
proof (induction qs arbitrary: pre res)
  case Nil
  then show ?case by (simp add: query_parts.simps)
next
  case (Cons h qs)
  obtain k v where h: "h = (k, v)" by fastforce
  have get: "arr_get ''sub_tokens'' a (length pre) = ret (Some (k @ ''='' @ v))"
    using Cons.prems by (simp add: arr_get_def nth_append query_part_def h)
  have eq: "strstr (k @ ''='' @ v) ''='' = Some (length k)" and v: "v \<noteq> []"
    using Cons.prems(5) h strstr_skip [of "''=''" k v] by auto
  have "query_parts a rcap count (length (pre @ [Some (query_part h)])) (res @ [Some k, Some v]) =
      ret ((res @ [Some k, Some v]) @ concat (map (\<lambda>(k, v). [Some k, Some v]) qs))"
    using Cons.prems by (intro Cons.IH) auto
  moreover have "length pre < count" "length res < rcap" "Suc (length res) < rcap" using Cons.prems(3,4) by simp_all
  ultimately show ?case
    using get eq v h
    by (simp add: query_parts.simps [of a rcap count "length pre"] Let_def)
qed

lemma query_loop_pairs:
  assumes "cells a = pre @ concat (map (\<lambda>(k, v). [Some k, Some v]) qs) @ post"
    "length pre + 2 * length qs \<le> acap a" "n = length pre + 2 * length qs"
  shows "query_loop a n (length pre) d = dict_store.put_all d (some_snd qs)"
  using assms
proof (induction qs arbitrary: pre d)
  case Nil
  then show ?case by (simp add: query_loop.simps some_snd_def)
next
  case (Cons h qs)
  obtain k v where h: "h = (k, v)" by fastforce
  have get: "arr_get ''query_tokens'' a (length pre) = ret (Some k)"
    "arr_get ''query_tokens'' a (Suc (length pre)) = ret (Some v)"
    using Cons.prems by (simp_all add: arr_get_def nth_append h)
  have "query_loop a n (length (pre @ [Some k, Some v])) d' = dict_store.put_all d' (some_snd qs)" for d'
    using Cons.prems h by (intro Cons.IH) auto
  moreover have "length pre < n" using Cons.prems(3) by simp
  ultimately show ?case
    using get h
    by (simp add: query_loop.simps [of a n "length pre"] some_snd_def split_def)
qed

lemma body_loop_empty_line:
  assumes "cells a = xs @ ys @ Some [] # c # post" "length xs + length ys + 1 < acap a"
    "length xs + length ys < n" "Some [] \<notin> set ys"
  shows "body_loop a n (length xs) =
    (case c of None \<Rightarrow> ret Null | Some s \<Rightarrow> (over ''body'' (8 \<le> length s), Inr (Str s)))"
  using assms
proof (induction ys arbitrary: xs)
  case Nil
  then have "arr_get ''tokens'' a (length xs) = ret (Some [])" "arr_get ''tokens'' a (Suc (length xs)) = ret c"
    by (simp_all add: arr_get_def nth_append)
  then show ?case
    using Nil.prems by (simp add: body_loop.simps [of a n "length xs"] guard_bounds_over split: option.splits)
next
  case (Cons y ys)
  have get: "arr_get ''tokens'' a (length xs) = ret y" "y \<noteq> Some []"
    using Cons.prems by (auto simp: arr_get_def nth_append)
  have "body_loop a n (length (xs @ [y])) =
      (case c of None \<Rightarrow> ret Null | Some s \<Rightarrow> (over ''body'' (8 \<le> length s), Inr (Str s)))"
    using Cons.prems by (intro Cons.IH) auto
  then show ?case
    using get Cons.prems by (simp add: body_loop.simps [of a n "length xs"])
qed

section \<open>Cutting a well-formed request\<close>

lemma set_join_with: "set (join_with d ps) \<subseteq> set d \<union> (\<Union>p \<in> set ps. set p)"
  by (induction d ps rule: join_with.induct) auto

lemma join_with_eq_Nil: "join_with d ps = [] \<Longrightarrow> d \<noteq> [] \<Longrightarrow> ps \<noteq> [] \<Longrightarrow> ps = [[]]"
  by (cases "(d, ps)" rule: join_with.cases) auto

lemma render_target_avoids:
  assumes "avoids cs p" "\<forall>(k, v) \<in> set qs. avoids cs k \<and> avoids cs v" "avoids cs ''?&=''"
  shows "avoids cs (render_target p qs)"
  using assms set_join_with [of "''&''" "map query_part qs"]
  by (fastforce simp: avoids_def render_target_def query_part_def)

lemma split_request:
  assumes "request_ok m p qs pr hs bs" "bs \<noteq> []"
  shows "split_on crlf (render_lines m p qs pr hs bs) =
    request_line m (render_target p qs) pr # map header_line hs @ [] # bs"
proof -
  have "avoids [CHR 0x0D] (render_target p qs)"
    by (rule render_target_avoids) (use assms(1) in \<open>auto simp: request_ok_def avoids_def\<close>)
  then show ?thesis
    unfolding render_lines_def using assms
    by (intro split_join) (auto simp: crlf_def request_ok_def avoids_def request_line_def header_line_def)
qed

lemma split_request_line:
  assumes "request_ok m p qs pr hs bs"
  shows "split_on '' '' (request_line m (render_target p qs) pr) = [m, render_target p qs, pr]"
proof -
  have "avoids [CHR '' ''] (render_target p qs)"
    by (rule render_target_avoids) (use assms in \<open>auto simp: request_ok_def avoids_def\<close>)
  then have "CHR '' '' \<notin> set (render_target p qs)" by (simp add: avoids_def)
  moreover have "CHR '' '' \<notin> set m" "CHR '' '' \<notin> set pr" using assms by (auto simp: request_ok_def avoids_def)
  ultimately have "split_on '' '' (join_with '' '' [m, render_target p qs, pr]) = [m, render_target p qs, pr]"
    by (intro split_join) auto
  then show ?thesis by (simp add: request_line_def)
qed

lemma strsplit_pieces:
  assumes "d \<noteq> []" "split_on d s = ps @ [x]" "x \<noteq> []"
  shows "strsplit True True (Some s) d =
    ([Fault (OutOfBounds ''result'')],
     Inr (Some \<lparr>cells = map Some (ps @ [x]) @ [None], acap = Suc (length ps)\<rparr>, Suc (length ps)))"
  using strsplit_eq [OF assms(1), of s] assms(2,3) by (simp add: tokens_of_def)

definition target_faults :: "string \<Rightarrow> (string \<times> string) list \<Rightarrow> event list" where
  "target_faults p qs =
     (if qs = [] then [] else replicate 3 (Fault (OutOfBounds ''result''))) @ over ''path'' (8 \<le> length p)"

lemma length_pairs [simp]: "length (concat (map (\<lambda>p. [f p, g p]) qs)) = length qs * 2"
  by (induction qs) auto

lemma parseQueryStr_rendered:
  assumes "request_ok m p qs pr hs bs" "qs \<noteq> []"
  shows "parseQueryStr (Some (render_target p qs)) =
    (replicate 3 (Fault (OutOfBounds ''result'')),
     Inr (\<lparr>cells = Some p # concat (map (\<lambda>(k, v). [Some k, Some v]) qs) @ [None], acap = 2 * length qs + 1\<rparr>,
          2 * length qs + 1))"
proof -
  let ?parts = "map query_part qs" and ?q = "join_with ''&'' (map query_part qs)"
  have q: "avoids [CHR ''?''] ?q" "?q \<noteq> []"
    using set_join_with [of "''&''" ?parts] assms join_with_eq_Nil [of "''&''" ?parts]
    by (fastforce simp: avoids_def request_ok_def query_part_def)+
  have "split_on ''?'' (join_with ''?'' [p, ?q]) = [p, ?q]"
    using q assms(1) by (intro split_join) (auto simp: avoids_def request_ok_def)
  then have s1: "split_on ''?'' (render_target p qs) = [p] @ [?q]" using assms(2) by (simp add: render_target_def)
  have "split_on ''&'' ?q = ?parts"
    using assms by (intro split_join) (auto simp: avoids_def request_ok_def query_part_def)
  moreover obtain qs' z where z: "qs = qs' @ [z]" using assms(2) by (metis rev_exhaust)
  ultimately have s2: "split_on ''&'' ?q = map query_part qs' @ [query_part z]" by simp
  have "query_part z \<noteq> []" by (simp add: query_part_def)
  note sp = strsplit_pieces [OF _ s1 q(2), simplified] strsplit_pieces [OF _ s2 this, simplified]
  have "query_parts \<lparr>cells = map (Some \<circ> query_part) qs' @ [Some (query_part z), None], acap = Suc (length qs')\<rparr>
      (Suc (Suc (Suc (length qs' * 2)))) (Suc (length qs')) (length ([] :: cptr list)) [Some p] =
    ret ([Some p] @ concat (map (\<lambda>(k, v). [Some k, Some v]) qs))"
    using assms(1) z
    by (intro query_parts_pairs [where post = "[None]"]) (auto simp: request_ok_def avoids_def)
  with sp z show ?thesis
    by (simp add: parseQueryStr_def arr_get_def bind_pair Let_def guard_bounds_over length_pairs
        comp_def split_def numeral_3_eq_3 mult.commute)
qed

lemma parse_target_rendered:
  assumes "request_ok m p qs pr hs bs" "dict_store.put_all (dict_of 20 []) (some_snd qs) = ret q"
  shows "parse_target (Some (render_target p qs)) = (target_faults p qs, Inr (p, q))"
proof (cases "qs = []")
  case True
  with assms show ?thesis
    by (auto simp: parse_target_def initDict_dict_of render_target_def request_ok_def avoids_def some_snd_def
        target_faults_def guard_bounds_over)
next
  case False
  let ?a = "\<lparr>cells = Some p # concat (map (\<lambda>(k, v). [Some k, Some v]) qs) @ [None], acap = 2 * length qs + 1\<rparr>"
  have "CHR ''?'' \<in> set (render_target p qs)" using False by (simp add: render_target_def)
  moreover have "query_loop ?a (2 * length qs + 1) (length [Some p]) (dict_of 20 []) = ret q"
    using assms(2) by (subst query_loop_pairs [where post = "[None]"]) auto
  moreover have "arr_get ''query_tokens'' ?a i = ret (cells ?a ! i)" if "i < 3" for i
    using that False by (cases qs) (auto simp: arr_get_def split_def)
  ultimately show ?thesis
    using False parseQueryStr_rendered [OF assms(1) False]
    by (simp add: parse_target_def initDict_dict_of bind_pair guard_bounds_over target_faults_def)
qed

text \<open>What is left once the request line has been read.\<close>

definition parse_rest :: "carr \<Rightarrow> nat \<Rightarrow> string \<Rightarrow> string \<Rightarrow> string \<Rightarrow> string dict \<Rightarrow> request run" where
  "parse_rest a n m pr p q =
     bind (header_loop a (header_bound n) 1 (dict_of 50 [])) (\<lambda>hs'.
     bind (body_loop a n 0) (\<lambda>b.
       ret \<lparr>info = encodeReqmts (put_method (put_proto 0 (proto_code pr)) (method_code m)), path = p,
            headers = hs', body = b, query = q\<rparr>))"

lemma parseRequest_prefix:
  assumes "request_ok m p qs pr hs bs" "bs \<noteq> []"
    "dict_store.put_all (dict_of 20 []) (some_snd qs) = ret q"
  shows "\<exists>a. cells a = Some (request_line m (render_target p qs) pr) # map (\<lambda>kv. Some (header_line kv)) hs @ Some [] #
        map Some (butlast bs) @ (if last bs = [] then [None] else [Some (last bs), None]) \<and>
      acap a = length hs + length bs + 2 \<and>
      parseRequest (Some (render_lines m p qs pr hs bs)) =
      (over ''result'' (last bs \<noteq> []) @ [Fault (OutOfBounds ''result'')] @ target_faults p qs @
         fst (parse_rest a (length hs + length bs + 2) m pr p q),
       snd (parse_rest a (length hs + length bs + 2) m pr p q))"
    (is "\<exists>a. ?cells a \<and> _ \<and> _")
proof -
  let ?s = "render_lines m p qs pr hs bs" and ?line = "request_line m (render_target p qs) pr"
  note sp = split_request [OF assms(1,2)]
  let ?a = "\<lparr>cells = map Some (tokens_of crlf ?s) @ [None], acap = length (split_on crlf ?s)\<rparr>"
  have c: "?cells ?a"
    using assms(2) by (simp add: tokens_of_def Let_def sp butlast_append)
       (metis append_butlast_last_id list.simps(8,9) map_append)
  have pr: "pr \<noteq> []" using assms(1) by (simp add: request_ok_def)
  have sl: "split_on '' '' ?line = [m, render_target p qs] @ [pr]" using split_request_line [OF assms(1)] by simp
  note s2 = strsplit_pieces [OF _ sl pr, simplified]
  have s1: "strsplit True True (Some ?s) crlf = (over ''result'' (last bs \<noteq> []), Inr (Some ?a, length hs + length bs + 2))"
    using strsplit_eq [of crlf ?s] assms(2) by (simp add: crlf_def [symmetric] sp over_def) (simp add: crlf_def)
  have "arr_get ''tokens'' ?a 0 = ret (Some ?line)" using c sp by (simp add: arr_get_def)
  then show ?thesis
    using c s1 s2 parse_target_rendered [OF assms(1,3)]
    by (intro exI [of _ ?a])
      (simp add: parseRequest_def bind_pair arr_get_def initDict_dict_of encodeProto_ret encodeMethod_ret parse_rest_def sp)
qed

lemma parseRequest_rendered:
  assumes "request_ok m p qs pr hs [b]" "length hs \<le> 50"
    "dict_store.put_all (dict_of 20 []) (some_snd qs) = ret q"
    "dict_store.put_all (dict_of 50 []) (some_snd hs) = ret h"
  shows "parseRequest (Some (render_request m p qs pr hs b)) =
    (over ''result'' (b \<noteq> []) @ [Fault (OutOfBounds ''result'')] @ target_faults p qs @ over ''body'' (8 \<le> length b),
     Inr \<lparr>info = encodeReqmts (put_method (put_proto 0 (proto_code pr)) (method_code m)), path = p, headers = h,
          body = (if b = [] then Null else Str b), query = q\<rparr>)"
proof -
  let ?line = "request_line m (render_target p qs) pr"
  obtain a where a: "cells a = [Some ?line] @ map (\<lambda>kv. Some (header_line kv)) hs @ Some [] #
      (if b = [] then [None] else [Some b, None])" "acap a = length hs + 3"
    and run: "parseRequest (Some (render_request m p qs pr hs b)) =
      (over ''result'' (b \<noteq> []) @ [Fault (OutOfBounds ''result'')] @ target_faults p qs @
         fst (parse_rest a (length hs + 3) m pr p q), snd (parse_rest a (length hs + 3) m pr p q))"
    using parseRequest_prefix [OF assms(1) _ assms(3)] by (auto simp: numeral_3_eq_3 cong: if_cong)
  have bound: "header_bound (length hs + 3) = length hs + 1" using assms(2) by (simp add: header_bound_eq)
  have "header_loop a (length hs + 1) (length [Some ?line]) (dict_of 50 []) = ret h"
    using assms(1,4) a
    by (subst header_loop_lines [where post = "Some [] # (if b = [] then [None] else [Some b, None])" and extra = 0])
       (auto simp: request_ok_def avoids_def header_loop_stop)
  moreover have "body_loop a (length hs + 3) (length ([] :: cptr list)) =
      (over ''body'' (8 \<le> length b), Inr (if b = [] then Null else Str b))"
    using a by (subst body_loop_empty_line [where ys = "Some ?line # map (\<lambda>kv. Some (header_line kv)) hs" and
      c = "if b = [] then None else Some b" and post = "if b = [] then [] else [None]"])
      (auto simp: request_line_def header_line_def ret_def)
  ultimately show ?thesis using run bound by (simp add: parse_rest_def bind_pair)
qed

lemma some_snd_keys: "\<forall>(k, v) \<in> set kvs. avoids [NUL] k \<Longrightarrow> \<forall>k \<in> fst ` set (some_snd kvs). is_cstring k"
  by (auto simp: some_snd_def avoids_def is_cstring_def)

lemma request_ok_keys:
  assumes "request_ok m p qs pr hs bs"
  shows "\<forall>k \<in> fst ` set (some_snd qs). is_cstring k" "\<forall>k \<in> fst ` set (some_snd hs). is_cstring k"
    "is_cstring m" "is_cstring pr"
proof -
  show "\<forall>k \<in> fst ` set (some_snd qs). is_cstring k" "\<forall>k \<in> fst ` set (some_snd hs). is_cstring k"
    using assms by (intro some_snd_keys; auto simp: request_ok_def avoids_def)+
  show "is_cstring m" "is_cstring pr" using assms by (auto simp: request_ok_def avoids_def is_cstring_def)
qed

lemma stored_all:
  assumes "\<forall>k \<in> fst ` set (some_snd kvs). is_cstring k" "length kvs \<le> n" "n < 2 ^ 31"
  shows "\<exists>d. dict_store.put_all (dict_of n []) (some_snd kvs) = ret d \<and> dict_ok d \<and>
    dict_map d = map_of (rev (some_snd kvs))"
  using dict_store.put_all_room [of "dict_of n []" "some_snd kvs"] assms
  by (auto simp: some_snd_def good_pairs_def)

lemma stored:
  assumes "\<forall>k \<in> fst ` set (some_snd kvs). is_cstring k" "n < 2 ^ 31"
  shows "\<exists>d. dict_store.put_all (dict_of n []) (some_snd kvs) = ret d"
  using dict_store.put_all_ok [of "dict_of n []" "some_snd kvs"] assms by (auto simp: good_pairs_def)

section \<open>Properties\<close>



text \<open>C32. What every well-formed request overruns, in the order of the run. The request line is always cut by
  a call of \<^verbatim>\<open>strsplit\<close> that writes its terminating NULL one cell too far, so no well-formed request is parsed
  without a fault; a body and a query string each add overruns of the token arrays; and a path or a body
  of eight bytes or more overruns the eight bytes allocated for it.\<close>

theorem parseRequest_overruns:
  assumes "request_ok m p qs pr hs [b]" "length hs \<le> 50"
  shows "faults (parseRequest (Some (render_request m p qs pr hs b))) =
    over ''result'' (b \<noteq> []) @ [Fault (OutOfBounds ''result'')] @
    (if qs = [] then [] else replicate 3 (Fault (OutOfBounds ''result''))) @
    over ''path'' (8 \<le> length p) @ over ''body'' (8 \<le> length b)"
proof -
  note keys = request_ok_keys [OF assms(1)]
  obtain q h where "dict_store.put_all (dict_of 20 []) (some_snd qs) = ret q"
    "dict_store.put_all (dict_of 50 []) (some_snd hs) = ret h"
    using stored [OF keys(1), of 20] stored [OF keys(2), of 50] by auto
  from parseRequest_rendered [OF assms this] show ?thesis
    by (simp add: faults_def target_faults_def over_def)
qed

theorem parseRequest_overruns_witness:
  "faults (parseRequest (Some (render_request ''GET'' ''/index.html'' [] ''HTTP/1.1'' [(''Host'', ''h'')] []))) =
     [Fault (OutOfBounds ''result''), Fault (OutOfBounds ''path'')]"
  using parseRequest_overruns [of "''GET''" "''/index.html''" "[]" "''HTTP/1.1''" "[(''Host'', ''h'')]" "[]"]
  by (simp add: request_ok_def avoids_def)

text \<open>A body of more than one line (also one that ends with a line break) makes the parser fail: the header
  loop stops two tokens before the last one, so it reaches the empty line, takes it for a header and reads
  the value that \<^verbatim>\<open>parseHeader\<close> never wrote.\<close>

theorem parseRequest_multiline_body:
  assumes "request_ok m p qs pr hs bs" "2 \<le> length bs" "length hs + length bs + 2 < 2 ^ 64"
  shows "snd (parseRequest (Some (render_lines m p qs pr hs bs))) = Inl (Crash (UninitRead ''header''))"
proof -
  let ?line = "request_line m (render_target p qs) pr"
  let ?post = "Some [] # map Some (butlast bs) @ (if last bs = [] then [None] else [Some (last bs), None])"
  note keys = request_ok_keys [OF assms(1)]
  obtain q h where q: "dict_store.put_all (dict_of 20 []) (some_snd qs) = ret q"
    and h: "dict_store.put_all (dict_of 50 []) (some_snd hs) = ret h"
    using stored [OF keys(1), of 20] stored [OF keys(2), of 50] by auto
  have "bs \<noteq> []" using assms(2) by auto
  from parseRequest_prefix [OF assms(1) this q] obtain a where
    a: "cells a = [Some ?line] @ map (\<lambda>kv. Some (header_line kv)) hs @ ?post" "acap a = length hs + length bs + 2"
    and run: "snd (parseRequest (Some (render_lines m p qs pr hs bs))) =
      snd (parse_rest a (length hs + length bs + 2) m pr p q)" by auto
  let ?bound = "length hs + length bs"
  have bound: "header_bound (length hs + length bs + 2) = ?bound" using assms(3) by (simp add: header_bound_eq)
  have "header_loop a ?bound (length [Some ?line]) (dict_of 50 []) = halt (Crash (UninitRead ''header''))"
  proof (subst header_loop_lines [where post = ?post and extra = "length bs - 1"])
    show "\<forall>(k, v) \<in> set hs. CHR '':'' \<notin> set k" using assms(1) by (auto simp: request_ok_def avoids_def)
    have "header_loop a ?bound (length [Some ?line] + length hs) h = halt (Crash (UninitRead ''header''))"
      using a assms(2) by (intro header_loop_no_colon [where s = "[]"]) (auto simp: nth_append strstr_absent)
    then show "bind (dict_store.put_all (dict_of 50 []) (some_snd hs))
        (header_loop a ?bound (length [Some ?line] + length hs)) = halt (Crash (UninitRead ''header''))"
      using h by simp
  qed (use a assms(2) in auto)
  with run bound show ?thesis by (simp add: parse_rest_def)
qed

theorem parseRequest_multiline_body_witness:
  "snd (parseRequest (Some (render_lines ''POST'' ''/'' [] ''HTTP/1.1'' [(''Host'', ''h'')] [''a=1'', []]))) =
     Inl (Crash (UninitRead ''header''))"
  by (rule parseRequest_multiline_body) (simp_all add: request_ok_def avoids_def)

text \<open>C39. Input that is not a request crashes the parser: no input and an empty request; a request line with no
  target; a request line that no line break follows, where the bound \<^verbatim>\<open>*num_tokens - 2\<close> of the header loop
  wraps around and the loop reaches the NULL after the last token.\<close>

theorem parseRequest_malformed:
  "parseRequest None = halt (Crash (NullDeref ''str'')) \<and>
   parseRequest (Some []) = halt (Crash (NullDeref ''str'')) \<and>
   (avoids [CHR 0x0D, CHR '' ''] s \<and> s \<noteq> [] \<longrightarrow>
      snd (parseRequest (Some (s @ crlf))) = Inl (Crash (NullDeref ''sub_tokens[1]''))) \<and>
   (request_ok m p qs pr [] [] \<longrightarrow>
      snd (parseRequest (Some (request_line m (render_target p qs) pr))) = Inl (Crash (NullDeref ''str'')))"
proof (intro conjI impI)
  show "parseRequest None = halt (Crash (NullDeref ''str''))" by (simp add: parseRequest_def strsplit_def)
  have "split_on crlf [] = [[]]" by (simp add: split_on_single crlf_def)
  then show "parseRequest (Some []) = halt (Crash (NullDeref ''str''))"
    using strsplit_eq [of crlf "[]"]
    by (simp add: parseRequest_def crlf_def tokens_of_def bind_pair arr_get_def strsplit_def [of _ _ None] halt_def)
next
  assume s: "avoids [CHR 0x0D, CHR '' ''] s \<and> s \<noteq> []"
  then have "split_on crlf (s @ crlf) = [s, []]"
    using split_join [of crlf "[s, []]"] by (simp add: crlf_def avoids_def)
  moreover have "split_on '' '' s = [] @ [s]" using s by (simp add: split_on_single avoids_def)
  ultimately show "snd (parseRequest (Some (s @ crlf))) = Inl (Crash (NullDeref ''sub_tokens[1]''))"
    using strsplit_eq [of crlf "s @ crlf"] s strsplit_pieces [of "'' ''" s "[]" s]
    by (simp add: parseRequest_def tokens_of_def bind_pair arr_get_def initDict_dict_of parse_target_def guard_bounds_over
        crlf_def)
next
  let ?s = "request_line m (render_target p qs) pr"
  assume ok: "request_ok m p qs pr [] []"
  have "avoids [CHR 0x0D] (render_target p qs)"
    by (rule render_target_avoids) (use ok in \<open>auto simp: request_ok_def avoids_def\<close>)
  then have "split_on crlf ?s = [] @ [?s]"
    using ok by (simp add: split_on_single crlf_def avoids_def request_ok_def request_line_def)
  note s1 = strsplit_pieces [OF _ this] and s2 = split_request_line [OF ok]
  obtain q where q: "dict_store.put_all (dict_of 20 []) (some_snd qs) = ret q"
    using stored [OF request_ok_keys(1) [OF ok], of 20] by auto
  have "snd (header_loop \<lparr>cells = [Some ?s, None], acap = Suc 0\<rparr> (header_bound (Suc 0)) (Suc 0) d) =
      Inl (Crash (NullDeref ''str''))" for d
    by (simp add: header_loop.simps [of _ _ "Suc 0"] header_bound_def arr_get_def guard_bounds_over bind_pair parseHeader_def)
  then show "snd (parseRequest (Some ?s)) = Inl (Crash (NullDeref ''str''))"
    using s1 strsplit_pieces [of "'' ''" ?s "[m, render_target p qs]" pr] s2 ok parse_target_rendered [OF ok q]
    by (simp add: parseRequest_def bind_pair arr_get_def initDict_dict_of request_ok_def crlf_def request_line_def bind_def)
qed

theorem parseRequest_malformed_witness:
  "snd (parseRequest (Some (''GET'' @ crlf))) = Inl (Crash (NullDeref ''sub_tokens[1]'')) \<and>
   snd (parseRequest (Some (request_line ''GET'' (render_target ''/'' []) ''HTTP/1.1''))) = Inl (Crash (NullDeref ''str''))"
  using parseRequest_malformed [of "''GET''" "''GET''" "''/''" "[]" "''HTTP/1.1''"]
  by (simp add: request_ok_def avoids_def)

section \<open>Every input\<close>

text \<open>
  Whatever the bytes received, the parser ends: it returns a request or crashes on a pointer. What it returns is
  well-typed: both dictionaries satisfy their invariant and have the sizes they were created with.
\<close>

lemma arr_get_ends: "ends (\<lambda>x. i < length (cells a) \<and> x = cells a ! i) (arr_get name a i)"
  by (auto simp: arr_get_def intro!: ends_skip)

lemmas arr_get_any = ends_mono [OF arr_get_ends TrueI] and deref_any = ends_mono [OF ends_deref TrueI]

lemma setTuple_ends:
  "dict_wf d \<Longrightarrow> dsize d = n \<Longrightarrow> key \<noteq> None \<Longrightarrow> ends (\<lambda>(st, d'). dict_wf d' \<and> dsize d' = n) (setTuple d key v)"
proof -
  assume d: "dict_wf d" "dsize d = n" "key \<noteq> None"
  then obtain k where "key = Some k" by blast
  with setTuple_wf [OF d(1), of k v] d(2) show ?thesis by (auto simp: ends_def)
qed

lemma initDict_ends: "n < 2 ^ 31 \<Longrightarrow> ends (\<lambda>d. dict_wf d \<and> dsize d = n) (initDict True True True n)"
  using initDict_wf [of n True True True] by (auto simp: initDict_def ends_def)

lemma strsplit_ends:
  assumes "d \<noteq> []"
  shows "ends (\<lambda>(toks, n). \<exists>ts. toks = Some \<lparr>cells = map Some ts @ [None], acap = n\<rparr>) (strsplit True True s d)"
proof (cases s)
  case None
  then show ?thesis by (auto simp: strsplit_def)
next
  case (Some str)
  then show ?thesis by (simp add: strsplit_eq [OF assms] ends_def)
qed

lemma parseHeader_ends: "ends (\<lambda>h. None \<notin> set (cells h)) (parseHeader s)"
  unfolding parseHeader_def
  by (rule ends_bind [OF ends_deref]) (auto intro!: ends_skip split: option.splits)

lemma header_loop_ends: "dict_wf d \<Longrightarrow> dsize d = n \<Longrightarrow> ends (\<lambda>d'. dict_wf d' \<and> dsize d' = n) (header_loop tokens bound i d)"
proof (induction tokens bound i d rule: header_loop.induct)
  case (1 tokens bound i d)
  show ?case
    unfolding header_loop.simps [of tokens bound i d]
  proof (intro ends_if ends_ret ends_crash conjI "1.prems", rule ends_bind [OF arr_get_ends],
      rule ends_bind [OF parseHeader_ends], rule ends_bind [OF arr_get_ends])
    fix line val and header :: carr
    assume b: "i < bound" "\<not> length (cells tokens) \<le> i" and h: "None \<notin> set (cells header)"
      and v: "1 < length (cells header) \<and> val = cells header ! 1"
    then have val: "val \<noteq> None" by (metis nth_mem)
    have "ends (\<lambda>d'. dict_wf d' \<and> dsize d' = n)
      (bind (arr_get ''header'' header 0) (\<lambda>key. bind (setTuple d key val) (\<lambda>(st, d'). header_loop tokens bound (i + 1) d')))"
    proof (rule ends_bind [OF arr_get_ends])
      fix key assume "0 < length (cells header) \<and> key = cells header ! 0"
      then have "key \<noteq> None" using h by (metis nth_mem)
      from setTuple_ends [OF "1.prems" this, of val] show
        "ends (\<lambda>d'. dict_wf d' \<and> dsize d' = n) (bind (setTuple d key val) (\<lambda>(st, d'). header_loop tokens bound (i + 1) d'))"
        by (rule ends_bind) (use "1.IH" b val in \<open>auto split: prod.splits\<close>)
    qed
    then show "ends (\<lambda>d'. dict_wf d' \<and> dsize d' = n)
      (if val = None then halt Hang
       else bind (arr_get ''header'' header 0) (\<lambda>key. bind (setTuple d key val) (\<lambda>(st, d'). header_loop tokens bound (i + 1) d')))"
      by (simp only: if_not_P [OF val])
  qed
qed

lemma query_parts_ends:
  "None \<notin> set res \<Longrightarrow> ends (\<lambda>res'. None \<notin> set res') (query_parts sub_tokens rcap count i res)"
proof (induction sub_tokens rcap count i res rule: query_parts.induct)
  case (1 sub_tokens rcap count i res)
  show ?case
    unfolding query_parts.simps [of sub_tokens rcap count i res]
    by (intro ends_if ends_ret "1.prems", rule ends_bind [OF arr_get_any], rule ends_bind [OF deref_any], rule ends_seq)
       (use "1.IH" "1.prems" in \<open>auto simp: Let_def strstr.simps [of "[]"] intro: ends_emit intro!: ends_skip split: option.splits\<close>)
qed

lemma parseQueryStr_ends:
  "ends (\<lambda>(a, n). \<exists>res. cells a = res @ [None] \<and> None \<notin> set res \<and> n = length res) (parseQueryStr s)"
  unfolding parseQueryStr_def
  apply (rule ends_bind [OF strsplit_ends], simp, clarify)
  apply (rule ends_bind [OF ends_deref], rule ends_bind [OF arr_get_ends])
  apply (rule ends_bind [OF strsplit_ends], simp, clarify)
  apply (rule ends_bind [OF ends_deref], unfold Let_def)
  apply (rule ends_bind [OF arr_get_any], rule ends_bind [OF deref_any])
  apply (rule ends_bind [OF query_parts_ends], simp)
  apply (intro ends_skip ends_ret, auto)
  done

lemma query_loop_ends:
  "cells a = res @ [None] \<Longrightarrow> None \<notin> set res \<Longrightarrow> n = length res \<Longrightarrow> dict_wf d \<Longrightarrow> dsize d = m \<Longrightarrow>
     ends (\<lambda>d'. dict_wf d' \<and> dsize d' = m) (query_loop a n i d)"
proof (induction a n i d rule: query_loop.induct)
  case (1 a n i d)
  show ?case
    unfolding query_loop.simps [of a n i d]
  proof (intro ends_if ends_ret conjI "1.prems", rule ends_bind [OF arr_get_ends], rule ends_bind [OF arr_get_ends])
    fix key val
    assume i: "i < n" and k: "i < length (cells a) \<and> key = cells a ! i"
    then have "key = res ! i" "i < length res" using "1.prems"(1,3) by (simp_all add: nth_append)
    then have "key \<noteq> None" using "1.prems"(2) by (metis nth_mem)
    from setTuple_ends [OF "1.prems"(4,5) this, of val] show
      "ends (\<lambda>d'. dict_wf d' \<and> dsize d' = m) (bind (setTuple d key val) (\<lambda>(st, d'). query_loop a n (i + 2) d'))"
      by (rule ends_bind) (use "1.IH" "1.prems" i in \<open>auto split: prod.splits\<close>)
  qed
qed

lemma body_loop_ends: "ends (\<lambda>_. True) (body_loop tokens n i)"
proof (induction tokens n i rule: body_loop.induct)
  case (1 tokens n i)
  show ?case
    unfolding body_loop.simps [of tokens n i]
    by (intro ends_if ends_ret TrueI, rule ends_bind [OF arr_get_any], intro ends_if, rule ends_bind [OF arr_get_any])
       (use "1.IH" in \<open>auto intro!: ends_skip split: option.splits\<close>)
qed

lemma parse_target_ends: "ends (\<lambda>(p, q). dict_wf q \<and> dsize q = 20) (parse_target t)"
  unfolding parse_target_def
  apply (rule ends_bind [OF initDict_ends], simp)
  apply (rule ends_bind [OF deref_any], intro ends_if ends_skip ends_ret, simp)
  apply (rule ends_bind [OF parseQueryStr_ends], elim case_prodE exE conjE, hypsubst, unfold prod.case)
  apply (rule ends_bind [OF arr_get_any], rule ends_bind [OF deref_any], rule ends_skip)
  apply (rule ends_bind [OF query_loop_ends], assumption, assumption, rule refl, assumption, assumption)
  apply (rule ends_bind [OF arr_get_any], rule ends_bind [OF arr_get_any], rule ends_ret, simp)
  done

lemma encode_ends: "ends (\<lambda>_. True) (encodeProto p b)" "ends (\<lambda>_. True) (encodeMethod p b)"
  by (cases p; simp add: encodeProto_def encodeMethod_def ends_def)+

definition typed_request :: "request \<Rightarrow> bool" where
  "typed_request r \<longleftrightarrow> dict_wf (headers r) \<and> dsize (headers r) = 50 \<and> dict_wf (query r) \<and> dsize (query r) = 20"

lemma parseRequest_ends: "ends typed_request (parseRequest req)"
  unfolding parseRequest_def
  apply (rule ends_bind [OF strsplit_ends], simp add: crlf_def, clarify)
  apply (rule ends_bind [OF ends_deref], rule ends_bind [OF arr_get_any])
  apply (rule ends_bind [OF strsplit_ends], simp, clarify)
  apply (rule ends_bind [OF ends_deref], rule ends_bind [OF initDict_ends], simp)
  apply (rule ends_bind [OF arr_get_any], rule ends_bind [OF parse_target_ends], clarify)
  apply (rule ends_bind [OF header_loop_ends], assumption, rule refl)
  apply (rule ends_bind [OF body_loop_ends], rule ends_bind [OF arr_get_any], rule ends_bind [OF encode_ends(1)])
  apply (rule ends_bind [OF arr_get_any], rule ends_bind [OF encode_ends(2)], rule ends_ret, simp add: typed_request_def)
  done

text \<open>The parser has no effect but on memory: its events are faults.\<close>

lemma arr_get_faults [log_intros]: "log_all is_fault (arr_get name a i)"
  unfolding arr_get_def by (intro log_intros) simp

lemma strsplit_faults [log_intros]: "d \<noteq> [] \<Longrightarrow> log_all is_fault (strsplit True True s d)"
  by (cases s) (simp_all add: strsplit_eq log_all_def, simp add: strsplit_def)

lemma setTuple_faults [log_intros]: "log_all is_fault (setTuple d key v)"
proof -
  have e: "log_all is_fault (entry_at es i)" for es :: "'a tuple option list" and i
    unfolding entry_at_def by (intro log_intros)
  have "log_all is_fault (findKey_loop es key is)" for es :: "'a tuple option list" and "is"
    by (induction "is") (auto intro!: log_intros e)
  then show ?thesis unfolding setTuple_def findKey_def Let_def by (intro log_intros e)
qed

lemma parseHeader_faults [log_intros]: "log_all is_fault (parseHeader s)"
  unfolding parseHeader_def by (auto intro!: log_intros split: option.splits)

lemma header_loop_faults [log_intros]: "log_all is_fault (header_loop tokens bound i d)"
proof (induction tokens bound i d rule: header_loop.induct)
  case (1 tokens bound i d)
  note IH = "1.IH" [unfolded Suc_eq_plus1 [symmetric]]
  show ?case unfolding header_loop.simps [of tokens bound i d] by (auto intro!: log_intros IH)
qed

lemma query_parts_faults [log_intros]: "log_all is_fault (query_parts sub_tokens rcap count i res)"
proof (induction sub_tokens rcap count i res rule: query_parts.induct)
  case (1 sub_tokens rcap count i res)
  then show ?case
    unfolding query_parts.simps [of sub_tokens rcap count i res] 
    by (auto simp: Let_def strstr.simps [of "[]"] intro!: log_intros split: option.splits)
qed

lemma query_loop_faults [log_intros]: "log_all is_fault (query_loop query_tokens n i d)"
proof (induction query_tokens n i d rule: query_loop.induct)
  case (1 query_tokens n i d)
  then show ?case unfolding query_loop.simps [of query_tokens n i d] by (auto intro!: log_intros)
qed

lemma body_loop_faults [log_intros]: "log_all is_fault (body_loop tokens n i)"
proof (induction tokens n i rule: body_loop.induct)
  case (1 tokens n i)
  then show ?case unfolding body_loop.simps [of tokens n i] by (auto intro!: log_intros split: option.splits)
qed

lemma parseRequest_faults: "log_all is_fault (parseRequest req)"
  unfolding parseRequest_def parse_target_def parseQueryStr_def initDict_def encodeProto_def encodeMethod_def Let_def split_def
  by (intro log_intros) (simp_all add: crlf_def)


end
