(* ===== verification/Server.thy ===== *)
theory Server
  imports C_Prelude StringOps Oop_Dict FawkesProto Response Ssl_IO Request
begin

text \<open>
  The rest of \<^verbatim>\<open>src/server/server.h\<close> and \<^verbatim>\<open>main\<close> of \<^verbatim>\<open>src/server/server.c\<close>: binding the listening
  socket, routing a parsed request, answering one connection, the signal handlers and the accept loop.
  What the operating system answers is a parameter; what the server writes to a socket and the sockets
  it closes are events.
\<close>

section \<open>Library functions\<close>

text \<open>\<^verbatim>\<open>write(fd, "...", n)\<close> of a literal; the literal ends with a NUL that can be written too.\<close>

definition lit_write :: "int \<Rightarrow> string \<Rightarrow> nat \<Rightarrow> unit run" where
  "lit_write fd lit n =
     seq (if n \<le> Suc (length lit) then ret () else emit (Fault (OutOfBounds ''literal'')))
     (emit (SockWrite fd (take n (lit @ [NUL]))))"


section \<open>Binding the listening socket\<close>

record addr_try =
  try_sock :: int
  try_setsockopt :: bool
  try_bind :: bool

text \<open>The loop over the addresses; the result is \<^verbatim>\<open>listen_sock\<close> and whether the loop stopped at an address.\<close>

fun bind_loop :: "addr_try list \<Rightarrow> int \<Rightarrow> (int \<times> bool) run" where
  "bind_loop [] listen_sock = ret (listen_sock, False)"
| "bind_loop (a # as) listen_sock =
     (if try_sock a = - 1 then bind_loop as (- 1)
      else if \<not> try_setsockopt a then halt (Exit 1)
      else if \<not> try_bind a then seq (emit (Close (try_sock a))) (bind_loop as (try_sock a))
      else ret (try_sock a, True))"

record listen_env =
  getaddrinfo_ok :: bool
  addresses :: "addr_try list"
  listen_ok :: bool
  sigaction_ok :: bool

text \<open>\<^verbatim>\<open>listen_sock\<close> is a global variable, 0 at the start; the result is its value when the function returns.\<close>

definition start_server :: "listen_env \<Rightarrow> int run" where
  "start_server e =
     (if \<not> getaddrinfo_ok e then halt (Exit 1)
      else
        bind (bind_loop (addresses e) 0) (\<lambda>(listen_sock, found).
          if \<not> found \<or> listen_sock = 0 then halt (Exit 1)
          else if \<not> listen_ok e then halt (Exit 1)
          else if \<not> sigaction_ok e then halt (Exit 1)
          else ret listen_sock))"


section \<open>Routing\<close>

definition PATH_MAX :: nat where "PATH_MAX = 4096"

definition bad_request_line :: string where "bad_request_line = ''HTTP/1.1 400 Bad Request'' @ crlf"
definition not_found_line :: string where "not_found_line = ''HTTP/1.1 404 Not Found'' @ crlf"
definition ok_line :: string where "ok_line = ''HTTP/1.1 200 OK'' @ crlf"
definition server_error_line :: string where "server_error_line = ''HTTP/1.1 500 Server Error'' @ crlf"

text \<open>
  \<^verbatim>\<open>sendall(worker_sock, resp_data, fileLen)\<close>: the first argument is the descriptor, converted to a
  pointer that points to nothing, which the first \<^verbatim>\<open>SSL_write\<close> dereferences. The length is read through an
  \<^verbatim>\<open>int *\<close>: the low 32 bits of \<^verbatim>\<open>*fileLen\<close>.
\<close>

definition sendall_to_fd :: "string \<Rightarrow> int run" where
  "sendall_to_fd data =
     (if 0 < sint (word_of_int (int (length data)) :: 32 word) then halt (Crash (BadPointer ''ssl'')) else ret (- 1))"

definition route_get :: "(string \<Rightarrow> file_io) \<Rightarrow> string \<Rightarrow> int \<Rightarrow> cptr \<Rightarrow> unit run" where
  "route_get fs req_path worker_sock root_dir =
     (let p = (if strncmp req_path ''/'' 2 = 0 then ''/index.html'' else req_path) in
      bind (deref ''root_dir'' root_dir) (\<lambda>root.
        seq (guard_bounds ''path'' PATH_MAX (length root))
        (seq (guard_bounds ''path'' PATH_MAX (length (root @ p)))
        (bind (readFile fs (root @ p)) (\<lambda>resp.
         bind (deref ''resp_data'' resp) (\<lambda>resp_data.
           if strtol0 resp_data = - 1 then lit_write worker_sock not_found_line 24
           else
             seq (lit_write worker_sock ok_line 17)
             (bind (sendall_to_fd resp_data) (\<lambda>st.
               if st = - 1 then lit_write worker_sock server_error_line 27 else ret ()))))))))"

text \<open>The \<^verbatim>\<open>switch\<close>: only the first case ends with \<^verbatim>\<open>break\<close>, all the others fall through to the default.\<close>

definition routeClient :: "(string \<Rightarrow> file_io) \<Rightarrow> request \<Rightarrow> int \<Rightarrow> cptr \<Rightarrow> unit run" where
  "routeClient fs req worker_sock root_dir =
     seq (if decodeReqmts (info req) = - 1 then lit_write worker_sock bad_request_line 27 else ret ())
     (seq (if decodeProto (info req) = - 1 then lit_write worker_sock bad_request_line 27 else ret ())
     (seq (if decodeMethod (info req) = - 1 then lit_write worker_sock bad_request_line 27 else ret ())
      (if decodeMethod (info req) = 1 then route_get fs (path req) worker_sock root_dir
       else
         seq (if decodeMethod (info req) = 2 then lit_write worker_sock ok_line 17 else ret ())
         (lit_write worker_sock server_error_line 27))))"


section \<open>One connection\<close>

record conn_env =
  tls :: ssl_env
  reads :: "nat \<Rightarrow> int \<times> string"
  read_err :: int
  writes :: "nat \<Rightarrow> int \<Rightarrow> int"
  files :: "string \<Rightarrow> file_io"

text \<open>After a failed read the error response is sent, and what was received is parsed all the same. The
  buffer is zeroed first: the string in it ends at the first NUL.\<close>

definition respond :: "conn_env \<Rightarrow> int \<Rightarrow> cptr \<Rightarrow> unit run" where
  "respond e worker_sock root_dir =
     seq (configServerSSL (tls e) worker_sock)
     (bind (readall (reads e)) (\<lambda>(status, recv_data).
       seq
         (if status < 0 then
            seq (emit (Call ''SSL_get_error''))
            (seq (emit (Stderr (''readall() error: '' @ int_digits (read_err e) @ [LF])))
            (bind (getResponseLen (Some bad_request_response)) (\<lambda>len.
             bind (sendall (writes e) bad_request_response len) (\<lambda>_. ret ()))))
          else ret ())
       (seq (guard_bounds ''recv_data'' (nat SOCK_BUFF_DEF_READ) (length (cstr_of recv_data)))
        (bind (parseRequest (Some (cstr_of recv_data))) (\<lambda>request.
          routeClient (files e) request worker_sock root_dir)))))"


section \<open>Signals\<close>

definition SIGHUP :: int where "SIGHUP = 1"
definition SIGINT :: int where "SIGINT = 2"
definition SIGQUIT :: int where "SIGQUIT = 3"
definition SIGUSR1 :: int where "SIGUSR1 = 10"
definition SIGSEGV :: int where "SIGSEGV = 11"

definition sig_cleanup :: "int \<Rightarrow> int \<Rightarrow> unit run" where
  "sig_cleanup listen_sock status =
     seq (if listen_sock \<noteq> 0 then emit (Close listen_sock) else ret ())
     (seq (destroySSL False False) (halt (Exit status)))"

definition parent_sig_handler :: "int \<Rightarrow> int \<Rightarrow> unit run" where
  "parent_sig_handler listen_sock signo =
     (if signo = SIGUSR1 then halt (Exit 0)
      else if signo = SIGHUP then sig_cleanup listen_sock 1
      else if signo = SIGINT then sig_cleanup listen_sock 2
      else if signo = SIGQUIT then sig_cleanup listen_sock 3
      else if signo = SIGSEGV then sig_cleanup listen_sock 4
      else ret ())"

text \<open>\<open>sg signo\<close>: \<^verbatim>\<open>signal\<close> accepts the handler. The events are the calls made, in order.\<close>

definition install :: "(int \<Rightarrow> bool) \<Rightarrow> int \<Rightarrow> unit run" where
  "install sg signo =
     seq (emit (Call (''signal '' @ int_digits signo))) (if sg signo then ret () else halt (Exit (- 1)))"

definition set_sig_handler :: "(int \<Rightarrow> bool) \<Rightarrow> unit run" where
  "set_sig_handler sg =
     seq (install sg SIGINT) (seq (install sg SIGHUP) (seq (install sg SIGSEGV) (install sg SIGQUIT)))"

text \<open>
  \<open>wp k\<close>: the result of the \<open>k\<close>-th \<^verbatim>\<open>waitpid\<close> and the value it leaves in \<^verbatim>\<open>errno\<close>; the loop returns the
  number of calls.
\<close>

partial_function (option) reap_loop :: "(nat \<Rightarrow> int \<times> int) \<Rightarrow> nat \<Rightarrow> int \<Rightarrow> (nat \<times> int) option" where
  "reap_loop wp k errno =
     (if 0 < fst (wp k) then reap_loop wp (k + 1) (snd (wp k)) else Some (k + 1, snd (wp k)))"

definition child_sig_handler :: "(nat \<Rightarrow> int \<times> int) \<Rightarrow> int \<Rightarrow> (nat \<times> int) run" where
  "child_sig_handler wp errno =
     (let saved_errno = errno in
      case reap_loop wp 0 errno of
        None \<Rightarrow> halt Hang
      | Some (calls, errno') \<Rightarrow> ret (calls, saved_errno))"

definition isRoot :: "nat \<Rightarrow> int" where
  "isRoot uid = (if uid \<noteq> 0 then - 1 else 0)"

text \<open>The offset of the address inside the socket address (\<^verbatim>\<open>sin_addr\<close> or \<^verbatim>\<open>sin6_addr\<close>).\<close>

definition get_in_addr :: "nat \<Rightarrow> nat" where
  "get_in_addr sa_family = (if sa_family = 2 then 4 else 8)"

section \<open>The program\<close>

text \<open>
  The command line. \<^verbatim>\<open>strsep(argv, " ")\<close> cuts \<^verbatim>\<open>argv[0]\<close>, and \<^verbatim>\<open>token == "-p"\<close> compares a pointer into it with
  the address of a literal: it never holds.
\<close>

definition literal_eq :: "string \<Rightarrow> string \<Rightarrow> bool" where
  "literal_eq token lit = False"

text \<open>In the branch of the port, \<^verbatim>\<open>memset\<close> would write to the literal that \<^verbatim>\<open>port\<close> points to.\<close>

fun args_loop :: "string list \<Rightarrow> nat \<Rightarrow> string \<Rightarrow> cptr \<Rightarrow> (string \<times> cptr) run" where
  "args_loop [] option_flag port root_dir = ret (port, root_dir)"
| "args_loop (token # ts) option_flag port root_dir =
     (if option_flag \<noteq> 0 then
        if option_flag = 1 then halt (Crash (BadPointer ''port''))
        else if option_flag = 2 then args_loop ts 0 port (Some token)
        else args_loop ts option_flag port root_dir
      else if literal_eq token ''-p'' \<or> literal_eq token ''--port'' then args_loop ts 1 port root_dir
      else if literal_eq token ''-r'' \<or> literal_eq token ''--root-dir'' then args_loop ts 2 port root_dir
      else args_loop ts option_flag port root_dir)"

text \<open>What reaches the accept loop: connections (with the answer of \<^verbatim>\<open>accept\<close>) and the signals \<^verbatim>\<open>main\<close>
  has a handler for.\<close>

datatype handled_signal = Hup | Intr | Quit | Segv

fun signo :: "handled_signal \<Rightarrow> int" where
  "signo Hup = SIGHUP"
| "signo Intr = SIGINT"
| "signo Quit = SIGQUIT"
| "signo Segv = SIGSEGV"

datatype input = Accept int conn_env | Deliver handled_signal

text \<open>A dereference in the first page, which is not mapped, raises \<^verbatim>\<open>SIGSEGV\<close>, and the handler runs.\<close>

fun first_page :: "fault \<Rightarrow> bool" where
  "first_page (NullDeref _) = True"
| "first_page (BadPointer obj) = (obj = ''ssl'')"
| "first_page _ = False"

definition with_segv :: "int \<Rightarrow> unit run \<Rightarrow> unit run" where
  "with_segv listen_sock m =
     (case snd m of
        Inl (Crash f) \<Rightarrow> if first_page f then
            (fst m @ fst (parent_sig_handler listen_sock SIGSEGV), snd (parent_sig_handler listen_sock SIGSEGV))
          else m
      | _ \<Rightarrow> m)"

text \<open>The accept loop. No code changes \<^verbatim>\<open>sig_action_flag\<close>, so it has no other end; when the inputs are used up
  the server waits in \<^verbatim>\<open>accept\<close>.\<close>

fun serve_loop :: "int \<Rightarrow> cptr \<Rightarrow> input list \<Rightarrow> unit run" where
  "serve_loop listen_sock root_dir [] = ret ()"
| "serve_loop listen_sock root_dir (Accept worker_sock e # rest) =
     (if worker_sock < 0 then serve_loop listen_sock root_dir rest
      else
        seq (with_segv listen_sock (respond e worker_sock root_dir))
        (seq (emit (Close worker_sock)) (serve_loop listen_sock root_dir rest)))"
| "serve_loop listen_sock root_dir (Deliver s # rest) =
     seq (parent_sig_handler listen_sock (signo s)) (serve_loop listen_sock root_dir rest)"

record main_env =
  signals :: "int \<Rightarrow> bool"
  uid :: nat
  argc :: int
  argv0 :: cptr
  env_pwd :: cptr
  listening :: listen_env
  inputs :: "input list"

definition main_server :: "main_env \<Rightarrow> unit run" where
  "main_server e =
     seq (set_sig_handler (signals e))
     (if isRoot (uid e) = - 1 then halt (Exit 1)
      else if 4 < argc e \<or> argc e < 0 then halt (Exit 1)
      else
        bind (args_loop (case argv0 e of None \<Rightarrow> [] | Some a \<Rightarrow> split_on '' '' a) 0 ''65501'' None) (\<lambda>(port, r).
          let root_dir = (if r = None then env_pwd e else r) in
          seq (emit (Call (''getaddrinfo port '' @ port)))
          (bind (start_server (listening e)) (\<lambda>listen_sock. serve_loop listen_sock root_dir (inputs e)))))"


section \<open>Lemmas\<close>

text \<open>The bytes written to a socket.\<close>

definition sent :: "int \<Rightarrow> event list \<Rightarrow> string" where
  "sent fd l = concat (map (\<lambda>e. case e of SockWrite f s \<Rightarrow> if f = fd then s else [] | _ \<Rightarrow> []) l)"

lemma sent_simps [simp]:
  "sent fd [] = []" "sent fd (l1 @ l2) = sent fd l1 @ sent fd l2"
  "sent fd (SockWrite f s # l) = (if f = fd then s else []) @ sent fd l"
  "sent fd (Fault x # l) = sent fd l" "sent fd (SslWrite s # l) = sent fd l"
  "sent fd (Close n # l) = sent fd l" "sent fd (Call c # l) = sent fd l" "sent fd (Stderr t # l) = sent fd l"
  by (simp_all add: sent_def)

lemma lit_write_eq:
  "n \<le> Suc (length lit) \<Longrightarrow> lit_write fd lit n = ([SockWrite fd (take n (lit @ [NUL]))], Inr ())"
  by (simp add: lit_write_def emit_def)

lemma status_lines:
  "lit_write fd bad_request_line 27 = ([SockWrite fd (bad_request_line @ [NUL])], Inr ())"
  "lit_write fd not_found_line 24 = ([SockWrite fd not_found_line], Inr ())"
  "lit_write fd ok_line 17 = ([SockWrite fd ok_line], Inr ())"
  "lit_write fd server_error_line 27 = ([SockWrite fd server_error_line], Inr ())"
  by (simp_all add: lit_write_eq bad_request_line_def not_found_line_def ok_line_def server_error_line_def crlf_def)

lemma seq_pair: "seq (l, Inr ()) k = (l @ fst k, snd k)"
  by (simp add: seq_def bind_def)

lemma seq_pair_halt: "seq (l, Inl h) k = (l, Inl h)"
  by (simp add: seq_def bind_def)

lemma args_loop_ignores: "args_loop ts 0 port root = ret (port, root)"
  by (induction ts) (simp_all add: literal_eq_def)

lemma sig_cleanup_eq:
  "sig_cleanup listen_sock st =
     ((if listen_sock \<noteq> 0 then [Close listen_sock] else []) @
        map Call [''ERR_free_strings'', ''EVP_cleanup'', ''CRYPTO_cleanup_all_ex_data''], Inl (Exit st))"
  by (simp add: sig_cleanup_def destroySSL_def seq_emit fst_snd_seq emit_def prod_eq_iff)

lemma parent_sig_handler_eq:
  "parent_sig_handler listen_sock (signo s) =
     sig_cleanup listen_sock (case s of Hup \<Rightarrow> 1 | Intr \<Rightarrow> 2 | Quit \<Rightarrow> 3 | Segv \<Rightarrow> 4)"
  "parent_sig_handler listen_sock SIGSEGV = sig_cleanup listen_sock 4"
  by (cases s; simp add: parent_sig_handler_def SIGHUP_def SIGINT_def SIGQUIT_def SIGUSR1_def SIGSEGV_def)+

text \<open>
  The loops over the answers of \<^verbatim>\<open>getaddrinfo\<close>, in this server and in the first client, share a contract: an address that
  gives no socket is passed over, a socket that cannot be used is closed, and the first usable one is the result.
\<close>

locale address_walk =
  fixes walk :: "'a list \<Rightarrow> int \<Rightarrow> (int \<times> 'r) run"
    and sock :: "'a \<Rightarrow> int"
    and passed :: "'a \<Rightarrow> bool"
    and good :: "'a \<Rightarrow> bool"
    and found :: "'a \<Rightarrow> 'r"
    and nothing :: 'r
  assumes walk_end: "walk [] s = ret (s, nothing)"
    and walk_pass: "passed a \<Longrightarrow>
      walk (a # as) s = (if sock a = - 1 then walk as (- 1) else seq (emit (Close (sock a))) (walk as (sock a)))"
    and walk_take: "good a \<Longrightarrow> walk (a # as) s = ret (sock a, found a)"
begin

definition closed :: "'a list \<Rightarrow> event list" where
  "closed bad = map (\<lambda>a. Close (sock a)) (filter (\<lambda>a. sock a \<noteq> - 1) bad)"

lemma walk_passes:
  "list_all passed bad \<Longrightarrow>
     walk (bad @ as) s = (closed bad @ fst (walk as (if bad = [] then s else sock (last bad))),
       snd (walk as (if bad = [] then s else sock (last bad))))"
proof (induction bad arbitrary: s)
  case (Cons b bad)
  then show ?case by (auto simp: walk_pass closed_def seq_emit)
qed (simp add: closed_def)

lemma walk_found: "list_all passed bad \<Longrightarrow> good a \<Longrightarrow> walk (bad @ a # rest) s = (closed bad, Inr (sock a, found a))"
  by (simp add: walk_passes walk_take)

lemma walk_nothing:
  "list_all passed bad \<Longrightarrow> walk bad s = (closed bad, Inr (if bad = [] then s else sock (last bad), nothing))"
  using walk_passes [of bad "[]" s] by (simp add: walk_end)

end

text \<open>An address the loop of the server passes over: no socket, or a socket that does not bind.\<close>

definition passed_over :: "addr_try \<Rightarrow> bool" where
  "passed_over a \<longleftrightarrow> try_sock a = - 1 \<or> (try_setsockopt a \<and> \<not> try_bind a)"

definition usable :: "addr_try \<Rightarrow> bool" where
  "usable a \<longleftrightarrow> try_sock a \<noteq> - 1 \<and> try_setsockopt a \<and> try_bind a"

definition opened_in_vain :: "addr_try list \<Rightarrow> event list" where
  "opened_in_vain bad = map (\<lambda>a. Close (try_sock a)) (filter (\<lambda>a. try_sock a \<noteq> - 1) bad)"

interpretation bind_walk: address_walk bind_loop try_sock passed_over usable "\<lambda>_. True" False
  by unfold_locales (auto simp: passed_over_def usable_def)

lemma bind_loop_found:
  assumes "list_all passed_over bad" "usable a"
  shows "bind_loop (bad @ a # rest) s = (opened_in_vain bad, Inr (try_sock a, True))"
  using bind_walk.walk_found [OF assms] by (simp add: bind_walk.closed_def opened_in_vain_def)

lemma bind_loop_Inr:
  "snd (bind_loop as s) = Inr (fd, True) \<Longrightarrow>
     \<exists>bad a rest. as = bad @ a # rest \<and> list_all passed_over bad \<and> usable a"
proof (induction "as" arbitrary: s)
  case (Cons a as)
  show ?case
  proof (cases "passed_over a")
    case True
    with Cons.prems have "\<exists>s'. snd (bind_loop as s') = Inr (fd, True)"
      by (auto simp: passed_over_def seq_emit split: if_splits)
    then obtain bad b rest where "as = bad @ b # rest" "list_all passed_over bad" "usable b" using Cons.IH by blast
    with True show ?thesis by (intro exI [of _ "a # bad"]) auto
  next
    case False
    with Cons.prems have "usable a" by (auto simp: passed_over_def usable_def split: if_splits)
    then show ?thesis by (intro exI [of _ "[]"]) auto
  qed
qed simp

lemma reap_loop_eq:
  assumes "\<forall>i < n. 0 < fst (wp (k + i))" "fst (wp (k + n)) \<le> 0"
  shows "reap_loop wp k e = Some (k + n + 1, snd (wp (k + n)))"
  using assms
proof (induction n arbitrary: k e)
  case 0
  then show ?case by (simp add: reap_loop.simps)
next
  case (Suc n)
  then have "reap_loop wp (k + 1) (snd (wp k)) = Some (k + 1 + n + 1, snd (wp (k + 1 + n)))"
    by (intro Suc.IH) (auto simp: less_Suc_eq_0_disj all_conj_distrib)
  moreover have "0 < fst (wp k)" using Suc.prems(1) by force
  ultimately show ?case by (simp add: reap_loop.simps [of wp k])
qed

lemma route_get_eq:
  assumes "is_cstring p" "q = (if p = ''/'' then ''/index.html'' else p)" "length root + length q < PATH_MAX"
  shows "route_get fs p sock (Some root) =
    bind (readFile fs (root @ q)) (\<lambda>resp. bind (deref ''resp_data'' resp) (\<lambda>d.
      if strtol0 d = - 1 then ([SockWrite sock not_found_line], Inr ())
      else seq ([SockWrite sock ok_line], Inr ()) (bind (sendall_to_fd d) (\<lambda>st.
        if st = - 1 then ([SockWrite sock server_error_line], Inr ()) else ret ()))))"
proof -
  have "strncmp p ''/'' 2 = 0 \<longleftrightarrow> p = ''/''"
    by (rule strncmp_literal) (use assms(1) in \<open>simp_all add: is_cstring_def\<close>)
  then show ?thesis using assms(2,3) by (simp add: route_get_def Let_def status_lines cong: if_cong)
qed

lemma sendall_to_fd_eq:
  assumes "length d < 2 ^ 31"
  shows "sendall_to_fd d = (if d = [] then ret (- 1) else halt (Crash (BadPointer ''ssl'')))"
proof -
  have "sint (word_of_int (int (length d)) :: 32 word) = int (length d)"
    using assms by (simp add: sint32_nat)
  then show ?thesis by (simp add: sendall_to_fd_def)
qed

section \<open>Answering a well-formed request\<close>

text \<open>The set-up of the connection succeeds.\<close>

definition tls_ready :: "ssl_env \<Rightarrow> bool" where
  "tls_ready e \<longleftrightarrow> init_ssl e \<noteq> 0 \<and> init_crypto e \<noteq> 0 \<and> ctx_ok e \<and> ssl_new_ok e \<and> 0 < handshake e"

lemma quiet_sent: "list_all quiet l \<Longrightarrow> sent fd l = []"
proof (induction l)
  case (Cons x l)
  then show ?case by (cases x) auto
qed simp

lemma quiet_over [simp]: "list_all quiet (over obj b)" "list_all quiet (target_faults p qs)"
  by (simp_all add: over_def target_faults_def list_all_iff)

lemma configServerSSL_ready:
  assumes "tls_ready e"
  shows "snd (configServerSSL e s) = Inr ()" "list_all quiet (fst (configServerSSL e s))"
  using assms configServerSSL_quiet [of e s] by (auto simp: tls_ready_def configServerSSL_snd log_all_def)

lemma readall_loop_quiet: "list_all quiet (fst (readall_loop rd k tot buf))"
proof (induction rd k tot buf rule: readall_loop.induct)
  case (1 rd k tot buf)
  then show ?case
    by (simp add: readall_loop.simps [of rd k] Let_def fst_snd_seq emit_def)
qed

lemma readall_quiet: "log_all quiet (readall rd)"
  using readall_loop_quiet [of rd 0 0 "[]"] by (auto simp: readall_def log_all_def bind_def split: sum.split)

lemma readall_delivers:
  assumes "delivers rd 0 cs 0" "int (length (concat cs)) \<le> SOCK_BUFF_MAX_READ"
  shows "snd (readall rd) = Inr (0, concat cs)" "list_all quiet (fst (readall rd))"
  using readall_loop_delivers [OF assms(1), of 0 "[]"] readall_quiet [of rd] assms(2)
  by (auto simp: readall_def bind_def log_all_def)

text \<open>The well-formed request a connection delivers, up to the first NUL; all its bytes fit the buffer of \<^verbatim>\<open>respond\<close>.\<close>

definition requests :: "conn_env \<Rightarrow> string list \<Rightarrow> string \<Rightarrow> string \<Rightarrow> (string \<times> string) list \<Rightarrow> string \<Rightarrow>
    (string \<times> string) list \<Rightarrow> string \<Rightarrow> bool" where
  "requests e cs m p qs pr hs b \<longleftrightarrow>
     tls_ready (tls e) \<and> delivers (reads e) 0 cs 0 \<and> cstr_of (concat cs) = render_request m p qs pr hs b \<and>
     request_ok m p qs pr hs [b] \<and> length hs \<le> 50 \<and>
     int (length (concat cs)) < SOCK_BUFF_DEF_READ"

lemma respond_rendered:
  assumes "requests e cs m p qs pr hs b"
  shows "\<exists>r l. path r = p \<and> decodeMethod (info r) = number_of method_table m \<and>
    decodeProto (info r) = number_of proto_table pr \<and>
    decodeReqmts (info r) = (if number_of method_table m \<noteq> - 1 \<and> number_of proto_table pr \<noteq> - 1 then 1 else - 1) \<and>
    list_all quiet l \<and>
    respond e s root = (l @ fst (routeClient (files e) r s root), snd (routeClient (files e) r s root))"
proof -
  from assms have a: "tls_ready (tls e)" "delivers (reads e) 0 cs 0" "cstr_of (concat cs) = render_request m p qs pr hs b"
    "request_ok m p qs pr hs [b]" "length hs \<le> 50"
    "int (length (concat cs)) < SOCK_BUFF_DEF_READ" unfolding requests_def by blast+
  note keys = request_ok_keys [OF a(4)]
  obtain q h where qh: "dict_store.put_all (dict_of 20 []) (some_snd qs) = ret q"
    "dict_store.put_all (dict_of 50 []) (some_snd hs) = ret h"
    using stored [OF keys(1), of 20] stored [OF keys(2), of 50] by auto
  let ?i = "put_method (put_proto 0 (proto_code pr)) (method_code m)"
  let ?r = "\<lparr>info = encodeReqmts ?i, path = p, headers = h, body = (if b = [] then Null else Str b), query = q\<rparr>"
  obtain pl where pl: "parseRequest (Some (cstr_of (concat cs))) = (pl, Inr ?r)" "list_all quiet pl"
    using parseRequest_rendered [OF a(4,5) qh] a(3) by simp
  have codes: "decodeMethod ?i = number_of method_table m" "decodeProto ?i = number_of proto_table pr"
    using keys by (simp_all add: decodeMethod_code decodeProto_code method_number [symmetric] proto_number [symmetric])
  note tls = configServerSSL_ready [OF a(1), of s]
  have fits: "int (length (concat cs)) \<le> SOCK_BUFF_MAX_READ"
    using a(6) by (simp add: SOCK_BUFF_DEF_READ_def SOCK_BUFF_MAX_READ_def)
  note rd = readall_delivers [OF a(2) fits]
  have "length (cstr_of (concat cs)) \<le> length (concat cs)" unfolding cstr_of_def by (rule length_takeWhile_le)
  then have str: "int (length (cstr_of (concat cs))) < SOCK_BUFF_DEF_READ" using a(6) by linarith
  have "respond e s root =
      ((fst (configServerSSL (tls e) s) @ fst (readall (reads e)) @ pl) @ fst (routeClient (files e) ?r s root),
       snd (routeClient (files e) ?r s root))"
    using tls rd pl str
    by (simp add: respond_def prod_eq_iff fst_snd_seq guard_bounds_in nat_less_iff) (simp add: bind_def)
  moreover have "list_all quiet (fst (configServerSSL (tls e) s) @ fst (readall (reads e)) @ pl)"
    using tls rd pl by simp
  ultimately show ?thesis using codes
    by (intro exI [of _ ?r] exI [of _ "fst (configServerSSL (tls e) s) @ fst (readall (reads e)) @ pl"])
       (simp add: decodeReqmts_encode)
qed

lemma routeClient_other:
  assumes "decodeMethod (info r) \<noteq> 1"
  shows "routeClient fs r sock root =
    (replicate ((if decodeReqmts (info r) = - 1 then 1 else 0) + (if decodeProto (info r) = - 1 then 1 else 0) +
        (if decodeMethod (info r) = - 1 then 1 else 0)) (SockWrite sock (bad_request_line @ [NUL])) @
     (if decodeMethod (info r) = 2 then [SockWrite sock ok_line] else []) @ [SockWrite sock server_error_line], Inr ())"
  using assms by (simp add: routeClient_def status_lines seq_pair)

lemma routeClient_get:
  assumes "decodeMethod (info r) = 1" "decodeProto (info r) \<noteq> - 1" "decodeReqmts (info r) \<noteq> - 1"
  shows "routeClient fs r sock root = route_get fs (path r) sock root"
  using assms by (simp add: routeClient_def)

text \<open>Every log of \<^verbatim>\<open>readFile\<close> is without writes to sockets.\<close>

lemma itoa_minus_one: "itoa (- 1) 10 = ret ''-1''"
proof -
  have "itoa_loop 10 1 [] = ret ''1''"
    by (simp add: itoa_loop.simps itoa_digit_def dig_def)
  then show ?thesis by (simp add: itoa_def Let_def swap_ends.simps)
qed

lemma readFile_quiet:
  obtains l r where "readFile fs p = (l, Inr r)" "list_all quiet l"
proof -
  have "\<exists>l r. readFile fs p = (l, Inr r) \<and> list_all quiet l"
    by (auto simp: readFile_def itoa_minus_one Let_def guard_bounds_def seq_emit ret_def)
       (auto simp: emit_def seq_def bind_def ret_def)
  with that show ?thesis by blast
qed

text \<open>The status lines a request other than GET is answered with, and the traffic in a log.\<close>

definition reply :: "string \<Rightarrow> string \<Rightarrow> string list" where
  "reply m pr =
     replicate ((if number_of method_table m = - 1 \<or> number_of proto_table pr = - 1 then 1 else 0) +
       (if number_of proto_table pr = - 1 then 1 else 0) + (if number_of method_table m = - 1 then 1 else 0))
       (bad_request_line @ [NUL]) @
     (if m = ''HEAD'' then [ok_line] else []) @ [server_error_line]"

definition traffic :: "event list \<Rightarrow> event list" where
  "traffic l = filter (\<lambda>e. \<not> quiet e) l"

lemma traffic_simps [simp]:
  "traffic [] = []" "traffic (l @ l') = traffic l @ traffic l'" "traffic (e # l) = (if quiet e then [] else [e]) @ traffic l"
  "list_all quiet l \<Longrightarrow> traffic l = []"
  by (auto simp: traffic_def list_all_iff filter_empty_conv)

lemma respond_traffic:
  assumes "requests e cs m p qs pr hs b" "m \<noteq> ''GET''"
  shows "snd (respond e sock root) = Inr ()" "traffic (fst (respond e sock root)) = map (SockWrite sock) (reply m pr)"
proof -
  from respond_rendered [OF assms(1), of sock root] obtain r l where
    r: "decodeMethod (info r) = number_of method_table m" "decodeProto (info r) = number_of proto_table pr"
      "decodeReqmts (info r) = (if number_of method_table m \<noteq> - 1 \<and> number_of proto_table pr \<noteq> - 1 then 1 else - 1)"
    and l: "list_all quiet l"
    and run: "respond e sock root = (l @ fst (routeClient (files e) r sock root), snd (routeClient (files e) r sock root))"
    by blast
  have m: "number_of method_table m \<noteq> 1" "number_of method_table m = 2 \<longleftrightarrow> m = ''HEAD''"
    using assms(2) by (auto simp: number_of_def method_table_def split: if_splits)
  have rep: "traffic (replicate n (SockWrite sock x)) = replicate n (SockWrite sock x)" for n x by (induction n) simp_all
  show "snd (respond e sock root) = Inr ()" using run m r routeClient_other [of r "files e" sock root] by simp
  show "traffic (fst (respond e sock root)) = map (SockWrite sock) (reply m pr)"
    using run m r routeClient_other [of r "files e" sock root] l by (simp add: rep reply_def)
qed

lemma sent_traffic: "sent fd (traffic l) = sent fd l"
proof (induction l)
  case (Cons x l)
  then show ?case by (cases x) (auto simp: traffic_def)
qed simp

lemma traffic_mem: "\<not> quiet e \<Longrightarrow> e \<in> set (traffic l) \<longleftrightarrow> e \<in> set l"
  by (auto simp: traffic_def)

lemma sent_writes: "sent fd (map (SockWrite fd) xs) = concat xs"
  by (induction xs) simp_all

text \<open>A connection of the accept loop with the request it brings: not accepted, or a well-formed request other than GET.\<close>

definition served :: "int \<times> conn_env \<times> string \<times> string \<Rightarrow> bool" where
  "served c \<longleftrightarrow>
     (case c of (sock, e, m, pr) \<Rightarrow>
        sock < 0 \<or> (m \<noteq> ''GET'' \<and> (\<exists>cs p qs hs b. requests e cs m p qs pr hs b)))"

lemma served_step:
  assumes "served (sock, e, m, pr)" "0 \<le> sock"
  shows "\<exists>l. with_segv listen_sock (respond e sock root) = (l, Inr ()) \<and> traffic l = map (SockWrite sock) (reply m pr)"
proof -
  from assms obtain cs p qs hs b where "requests e cs m p qs pr hs b" "m \<noteq> ''GET''" by (auto simp: served_def)
  from respond_traffic [OF this, of sock root] show ?thesis
    by (intro exI [of _ "fst (respond e sock root)"]) (simp add: with_segv_def prod_eq_iff)
qed


text \<open>Whatever a client sends, the work on its connection comes to an end.\<close>

lemma routeClient_no_hang: "no_hang (routeClient fs r sock root)"
proof -
  have rf: "no_hang (readFile fs p)" for p using readFile_quiet [of fs p] by (metis Inr_not_Inl no_hang_def snd_conv)
  have lw: "no_hang (lit_write s t n)" for s t n unfolding lit_write_def by (intro hang_intros)
  have fd: "no_hang (sendall_to_fd d)" for d unfolding sendall_to_fd_def by (intro hang_intros)
  show ?thesis unfolding routeClient_def route_get_def Let_def by (intro hang_intros rf lw fd)
qed

lemma respond_no_hang: "write_answers (writes e) \<Longrightarrow> no_hang (respond e sock root)"
  unfolding respond_def split_def getResponseLen_def
  by (intro hang_intros routeClient_no_hang ends_no_hang [OF parseRequest_ends] sendall_no_hang)

lemma sig_handler_no_hang: "no_hang (parent_sig_handler l n)"
  unfolding parent_sig_handler_def sig_cleanup_def by (intro hang_intros)

lemma with_segv_no_hang: "no_hang m \<Longrightarrow> no_hang (with_segv l m)"
  using sig_handler_no_hang [of l SIGSEGV] by (auto simp: with_segv_def no_hang_def split: sum.splits halt.splits)

fun input_answers :: "input \<Rightarrow> bool" where
  "input_answers (Accept sock e) = write_answers (writes e)"
| "input_answers (Deliver s) = True"

lemma serve_loop_no_hang: "list_all input_answers ins \<Longrightarrow> no_hang (serve_loop l root ins)"
proof (induction l root ins rule: serve_loop.induct)
  case (2 l root sock e ins)
  then show ?case by (auto intro!: hang_intros with_segv_no_hang respond_no_hang)
next
  case (3 l root s ins)
  then show ?case by (auto intro!: hang_intros sig_handler_no_hang)
qed (simp add: no_hang_ret)


text \<open>A GET for a file that can be read, in the accept loop.\<close>

lemma serve_loop_GET:
  assumes "requests e cs ''GET'' p qs pr hs b" "number_of proto_table pr \<noteq> - 1" "0 \<le> sock" "listen_sock \<noteq> 0"
    "q = (if p = ''/'' then ''/index.html'' else p)" "length root + length q < PATH_MAX" "is_cstring p"
    "snd (readFile (files e) (root @ q)) = Inr (Some d)" "d \<noteq> []" "length d < 2 ^ 31" "strtol0 d \<noteq> - 1"
    "sock \<noteq> listen_sock"
  shows "snd (serve_loop listen_sock (Some root) (Accept sock e # rest)) = Inl (Exit 4) \<and>
    sent sock (fst (serve_loop listen_sock (Some root) (Accept sock e # rest))) = ok_line \<and>
    Close listen_sock \<in> set (fst (serve_loop listen_sock (Some root) (Accept sock e # rest))) \<and>
    Close sock \<notin> set (fst (serve_loop listen_sock (Some root) (Accept sock e # rest)))"
proof -
  from respond_rendered [OF assms(1), of sock "Some root"] obtain r l where
    r: "path r = p" "decodeMethod (info r) = number_of method_table ''GET''"
      "decodeProto (info r) = number_of proto_table pr"
      "decodeReqmts (info r) = (if number_of method_table ''GET'' \<noteq> - 1 \<and> number_of proto_table pr \<noteq> - 1 then 1 else - 1)"
    and l: "list_all quiet l"
    and run: "respond e sock (Some root) =
      (l @ fst (routeClient (files e) r sock (Some root)), snd (routeClient (files e) r sock (Some root)))"
    by blast
  have get: "number_of method_table ''GET'' = 1" by (simp add: number_of_def method_table_def)
  obtain l' where rf: "readFile (files e) (root @ q) = (l', Inr (Some d))" and l': "list_all quiet l'"
    using readFile_quiet [of "files e" "root @ q"] assms(8) by (metis snd_conv)
  have "routeClient (files e) r sock (Some root) = route_get (files e) p sock (Some root)"
    using routeClient_get [of r "files e" sock "Some root"] r get assms(2) by simp
  also have "\<dots> = (l' @ [SockWrite sock ok_line], Inl (Crash (BadPointer ''ssl'')))"
    unfolding route_get_eq [OF assms(7,5,6)] using assms(9-11)
    by (simp add: rf bind_pair seq_pair sendall_to_fd_eq)
  finally have "routeClient (files e) r sock (Some root) =
    (l' @ [SockWrite sock ok_line], Inl (Crash (BadPointer ''ssl'')))" .
  with run have resp: "respond e sock (Some root) =
      (l @ l' @ [SockWrite sock ok_line], Inl (Crash (BadPointer ''ssl'')))" by simp
  have "Close c \<notin> set (l @ l')" for c using l l' by (auto simp: list_all_iff)
  then show ?thesis
    using assms(3,4,12)
    by (auto simp: with_segv_def resp parent_sig_handler_eq sig_cleanup_eq seq_pair_halt quiet_sent [OF l] quiet_sent [OF l'])
qed


section \<open>Properties\<close>

text \<open>What a client that is not routed to a file gets, for every request that could be parsed: one status
  line 400 (with a NUL after it, the length given being one too large) for each of the three checks that
  fails, then 200 if the method is HEAD, and then in every case 500. The server goes on.\<close>

theorem routeClient_responses:
  assumes "decodeMethod (info r) \<noteq> 1"
  shows "snd (routeClient fs r sock root) = Inr () \<and> faults (routeClient fs r sock root) = [] \<and>
    sent sock (fst (routeClient fs r sock root)) =
      concat (replicate ((if decodeReqmts (info r) = - 1 then 1 else 0) + (if decodeProto (info r) = - 1 then 1 else 0) +
        (if decodeMethod (info r) = - 1 then 1 else 0)) (bad_request_line @ [NUL])) @
      (if decodeMethod (info r) = 2 then ok_line else []) @ server_error_line"
proof -
  have "sent sock (replicate n (SockWrite sock x)) = concat (replicate n x)" for n x
    by (induction n) auto
  moreover have "filter is_fault (replicate n (SockWrite sock x)) = []" for n x by (induction n) auto
  ultimately show ?thesis by (simp add: routeClient_other [OF assms] faults_def)
qed

definition no_files :: "string \<Rightarrow> file_io" where
  "no_files p = \<lparr>fopen_ok = False, fseek_end_ok = False, ftell_size = - 1, fseek_set_ok = False, fread_data = [],
     ferror_set = True\<rparr>"

definition sample_request :: "u8 \<Rightarrow> request" where
  "sample_request i = \<lparr>info = i, path = ''/'', headers = dict_of 50 [], body = Null, query = dict_of 20 []\<rparr>"

theorem routeClient_responses_witness:
  "sent 4 (fst (routeClient no_files (sample_request 0) 4 None)) =
     concat (replicate 3 (bad_request_line @ [NUL])) @ server_error_line"
proof -
  have "decodeMethod 0 = - 1" "decodeProto 0 = - 1" "decodeReqmts 0 = - 1"
    by (simp_all add: decodeMethod_def decodeProto_def decodeReqmts_def get_method_def get_proto_def get_reqmts_def)
  with routeClient_responses [of "sample_request 0" no_files 4 None] show ?thesis
    by (simp add: sample_request_def numeral_3_eq_3)
qed

text \<open>C30. What a GET does, for a path that fits the buffer (\<^verbatim>\<open>"/"\<close> standing for \<^verbatim>\<open>"/index.html"\<close>): the file named
  by the root directory and the path is read. If it cannot be opened the server crashes on the NULL that
  \<^verbatim>\<open>readFile\<close> returns, with nothing sent; if the text starts with the number -1 (as after a read error) the client
  gets 404; if it is empty the client gets 200 and then 500; and for every other file the client gets the status line 200
  and then the server crashes, because \<^verbatim>\<open>sendall\<close> is handed the socket number for the TLS connection. In no case
  is a byte of the file sent.\<close>

theorem routeClient_GET:
  assumes "decodeMethod (info r) = 1" "decodeProto (info r) \<noteq> - 1" "decodeReqmts (info r) \<noteq> - 1"
    "is_cstring (path r)" "q = (if path r = ''/'' then ''/index.html'' else path r)"
    "length root + length q < PATH_MAX" "snd (readFile fs (root @ q)) = Inr resp"
    "\<forall>d. resp = Some d \<longrightarrow> length d < 2 ^ 31"
  shows "snd (routeClient fs r sock (Some root)) =
      (case resp of
         None \<Rightarrow> Inl (Crash (NullDeref ''resp_data''))
       | Some d \<Rightarrow> if strtol0 d = - 1 \<or> d = [] then Inr () else Inl (Crash (BadPointer ''ssl''))) \<and>
    sent sock (fst (routeClient fs r sock (Some root))) =
      (case resp of
         None \<Rightarrow> []
       | Some d \<Rightarrow> if strtol0 d = - 1 then not_found_line
           else if d = [] then ok_line @ server_error_line else ok_line)"
proof -
  obtain l where rf: "readFile fs (root @ q) = (l, Inr resp)" and l: "list_all quiet l"
    using readFile_quiet [of fs "root @ q"] assms(7) by (metis snd_conv)
  have "strtol0 [] = 0" by (simp add: strtol0_def Let_def)
  then show ?thesis
    using assms(8)
    by (cases resp)
      (simp_all add: routeClient_get [OF assms(1-3)] route_get_eq [OF assms(4-6)] rf bind_pair quiet_sent [OF l] seq_pair
        sendall_to_fd_eq)
qed

theorem routeClient_GET_witness:
  "snd (routeClient no_files (sample_request 25) 4 (Some ''/srv'')) = Inl (Crash (NullDeref ''resp_data'')) \<and>
   sent 4 (fst (routeClient no_files (sample_request 25) 4 (Some ''/srv''))) = []"
proof -
  have "decodeMethod 25 = 1" "decodeProto 25 = 2" "decodeReqmts 25 = 1" by code_simp+
  moreover have "snd (readFile no_files (''/srv'' @ ''/index.html'')) = Inr None"
    by (simp add: readFile_def no_files_def)
  ultimately show ?thesis
    using routeClient_GET [of "sample_request 25" "''/index.html''" "''/srv''" no_files None 4]
    by (simp add: sample_request_def PATH_MAX_def is_cstring_def)
qed

text \<open>One connection from the handshake to the answer: when the handshake succeeds and the client delivers a
  well-formed request with a method other than GET, however it is cut into chunks, \<^verbatim>\<open>respond\<close> returns, the
  answer goes to the plain socket and is exactly the status lines for that method and protocol, and no socket is
  closed by it.\<close>

theorem respond_answers:
  assumes "requests e cs m p qs pr hs b" "m \<noteq> ''GET''"
  shows "snd (respond e sock root) = Inr () \<and> Close c \<notin> set (fst (respond e sock root)) \<and>
    sent sock (fst (respond e sock root)) =
      concat (replicate ((if number_of method_table m = - 1 \<or> number_of proto_table pr = - 1 then 1 else 0) +
        (if number_of proto_table pr = - 1 then 1 else 0) + (if number_of method_table m = - 1 then 1 else 0))
        (bad_request_line @ [NUL])) @
      (if m = ''HEAD'' then ok_line else []) @ server_error_line"
proof -
  note t = respond_traffic [OF assms, of sock root]
  have "sent sock (fst (respond e sock root)) = concat (reply m pr)"
    using sent_traffic [of sock "fst (respond e sock root)"] by (simp add: t(2) sent_writes)
  moreover have "Close c \<notin> set (fst (respond e sock root))"
    using traffic_mem [of "Close c" "fst (respond e sock root)"] by (auto simp: t(2))
  ultimately show ?thesis using t(1) by (simp add: reply_def)
qed

definition sample_conn :: "string \<Rightarrow> (string \<Rightarrow> file_io) \<Rightarrow> conn_env" where
  "sample_conn req fs =
     \<lparr>tls = sample_env\<lparr>handshake := 1\<rparr>, reads = (\<lambda>k. if k = 0 then (int (length req), req) else (0, [])),
      read_err = 1, writes = (\<lambda>k n. n), files = fs\<rparr>"

lemma sample_conn_requests:
  assumes "request_ok m p qs pr hs [b]" "length hs \<le> 50" "is_cstring (render_request m p qs pr hs b)"
    "render_request m p qs pr hs b \<noteq> []" "int (length (render_request m p qs pr hs b)) < SOCK_BUFF_DEF_READ"
  shows "requests (sample_conn (render_request m p qs pr hs b) fs) [render_request m p qs pr hs b] m p qs pr hs b"
proof -
  have "cstr_of (render_request m p qs pr hs b) = render_request m p qs pr hs b"
    using assms(3) by (auto simp: cstr_of_def is_cstring_def takeWhile_eq_all_conv)
  then show ?thesis using assms by (simp add: requests_def sample_conn_def tls_ready_def sample_env_def)
qed

lemma sample_render:
  "render_request ''HEAD'' ''/'' [] ''HTTP/1.1'' [] [] = ''HEAD / HTTP/1.1'' @ crlf @ crlf"
  "render_request ''GET'' ''/'' [] ''HTTP/1.1'' [] [] = ''GET / HTTP/1.1'' @ crlf @ crlf"
  by (simp_all add: render_lines_def request_line_def render_target_def)

lemma sample_head:
  "requests (sample_conn (''HEAD / HTTP/1.1'' @ crlf @ crlf) no_files) [''HEAD / HTTP/1.1'' @ crlf @ crlf]
     ''HEAD'' ''/'' [] ''HTTP/1.1'' [] []"
  using sample_conn_requests [of "''HEAD''" "''/''" "[]" "''HTTP/1.1''" "[]" "[]" no_files]
  unfolding sample_render by (simp add: request_ok_def avoids_def is_cstring_def crlf_def SOCK_BUFF_DEF_READ_def)

theorem respond_answers_witness:
  "sent 4 (fst (respond (sample_conn (''HEAD / HTTP/1.1'' @ crlf @ crlf) no_files) 4 None)) = ok_line @ server_error_line"
proof -
  from respond_answers [OF sample_head, of 4 None] show ?thesis
    by (simp add: number_of_def method_table_def proto_table_def)
qed





text \<open>A GET ends the server. Whatever inputs come after it: when a client delivers a well-formed GET request for
  a file that opens and is not empty (and whose text does not start with -1), the client gets the status line and
  nothing more, the signal handler closes the listening socket and the process exits with status 4; the
  worker socket is not closed first.\<close>

theorem serve_loop_GET_ends_server:
  assumes "requests e cs ''GET'' p qs pr hs b" "number_of proto_table pr \<noteq> - 1" "0 \<le> sock" "listen_sock \<noteq> 0"
    "q = (if p = ''/'' then ''/index.html'' else p)" "length root + length q < PATH_MAX" "is_cstring p"
    "snd (readFile (files e) (root @ q)) = Inr (Some d)" "d \<noteq> []" "length d < 2 ^ 31" "strtol0 d \<noteq> - 1"
    "sock \<noteq> listen_sock"
  shows "snd (serve_loop listen_sock (Some root) (Accept sock e # rest)) = Inl (Exit 4) \<and>
    sent sock (fst (serve_loop listen_sock (Some root) (Accept sock e # rest))) = ok_line \<and>
    Close listen_sock \<in> set (fst (serve_loop listen_sock (Some root) (Accept sock e # rest))) \<and>
    Close sock \<notin> set (fst (serve_loop listen_sock (Some root) (Accept sock e # rest)))"
  by (rule serve_loop_GET [OF assms])

definition index_file :: "string \<Rightarrow> file_io" where
  "index_file p = \<lparr>fopen_ok = True, fseek_end_ok = True, ftell_size = 2, fseek_set_ok = True, fread_data = ''hi'',
     ferror_set = False\<rparr>"

theorem serve_loop_GET_ends_server_witness:
  "snd (serve_loop 3 (Some ''/srv'') [Accept 4 (sample_conn (''GET / HTTP/1.1'' @ crlf @ crlf) index_file)]) = Inl (Exit 4) \<and>
   sent 4 (fst (serve_loop 3 (Some ''/srv'') [Accept 4 (sample_conn (''GET / HTTP/1.1'' @ crlf @ crlf) index_file)])) = ok_line"
proof -
  have req: "requests (sample_conn (''GET / HTTP/1.1'' @ crlf @ crlf) index_file) [''GET / HTTP/1.1'' @ crlf @ crlf]
      ''GET'' ''/'' [] ''HTTP/1.1'' [] []"
    using sample_conn_requests [of "''GET''" "''/''" "[]" "''HTTP/1.1''" "[]" "[]" index_file]
    unfolding sample_render by (simp add: request_ok_def avoids_def is_cstring_def crlf_def SOCK_BUFF_DEF_READ_def)
  have fl: "files (sample_conn s index_file) = index_file" for s by (simp add: sample_conn_def)
  have rd: "snd (readFile index_file p) = Inr (Some ''hi'')" for p
    by (simp add: readFile_def index_file_def cstr_of_def guard_bounds_def seq_emit)
  have "strtol0 ''hi'' \<noteq> - 1" by code_simp
  then show ?thesis
    using serve_loop_GET_ends_server [OF req, of 4 3 "''/index.html''" "''/srv''" "''hi''" "[]"]
    by (simp add: fl rd number_of_def proto_table_def PATH_MAX_def is_cstring_def)
qed

text \<open>C36. \<^verbatim>\<open>start_server\<close> returns a socket exactly when the address information, \<^verbatim>\<open>listen\<close> and \<^verbatim>\<open>sigaction\<close> succeed
  and there is a first address whose socket is created, configured and bound, every address before it having
  failed to give a socket or to bind; the result is that socket, and every socket opened before it, and
  no other, has been closed, in order. In every other case the process exits with status 1.\<close>

theorem start_server_binds:
  "(snd (start_server e) = Inr fd \<longleftrightarrow>
     getaddrinfo_ok e \<and> listen_ok e \<and> sigaction_ok e \<and> fd \<noteq> 0 \<and>
     (\<exists>bad a rest. addresses e = bad @ a # rest \<and> list_all passed_over bad \<and> usable a \<and> try_sock a = fd)) \<and>
   (snd (start_server e) \<in> range Inr \<or> snd (start_server e) = Inl (Exit 1)) \<and>
   (getaddrinfo_ok e \<and> addresses e = bad @ a # rest \<and> list_all passed_over bad \<and> usable a \<longrightarrow>
      fst (start_server e) = opened_in_vain bad)"
proof (intro conjI)
  have ex1: "snd (bind_loop as s) = Inl h \<Longrightarrow> h = Exit 1" for "as" s h
    by (induction "as" arbitrary: s) (auto simp: seq_emit split: if_splits)
  show "snd (start_server e) \<in> range Inr \<or> snd (start_server e) = Inl (Exit 1)"
    using ex1 [of "addresses e" 0] by (cases "snd (bind_loop (addresses e) 0)") (auto simp: start_server_def bind_def)
  show "getaddrinfo_ok e \<and> addresses e = bad @ a # rest \<and> list_all passed_over bad \<and> usable a \<longrightarrow>
      fst (start_server e) = opened_in_vain bad"
    by (auto simp: start_server_def bind_loop_found bind_pair)
  show "snd (start_server e) = Inr fd \<longleftrightarrow>
     getaddrinfo_ok e \<and> listen_ok e \<and> sigaction_ok e \<and> fd \<noteq> 0 \<and>
     (\<exists>bad a rest. addresses e = bad @ a # rest \<and> list_all passed_over bad \<and> usable a \<and> try_sock a = fd)" (is "?l = ?r")
  proof
    assume l: ?l
    then have "snd (bind_loop (addresses e) 0) = Inr (fd, True)"
      by (auto simp: start_server_def bind_def split: sum.splits if_splits)
    from bind_loop_Inr [OF this] obtain bad a rest where
      d: "addresses e = bad @ a # rest" "list_all passed_over bad" "usable a" by blast
    with l show ?r
      by (auto simp: start_server_def bind_loop_found bind_pair split: if_splits intro!: exI [of _ bad])
  next
    assume ?r
    then show ?l by (auto simp: start_server_def bind_loop_found bind_pair)
  qed
qed

theorem start_server_binds_witness:
  "let bad = \<lparr>try_sock = 5, try_setsockopt = True, try_bind = False\<rparr>;
       good = \<lparr>try_sock = 6, try_setsockopt = True, try_bind = True\<rparr>;
       e = \<lparr>getaddrinfo_ok = True, addresses = [bad, good], listen_ok = True, sigaction_ok = True\<rparr>
   in snd (start_server e) = Inr 6 \<and> fst (start_server e) = [Close 5]"
proof -
  let ?bad = "\<lparr>try_sock = 5, try_setsockopt = True, try_bind = False\<rparr>"
  let ?good = "\<lparr>try_sock = 6, try_setsockopt = True, try_bind = True\<rparr>"
  let ?e = "\<lparr>getaddrinfo_ok = True, addresses = [?bad, ?good], listen_ok = True, sigaction_ok = True\<rparr>"
  have ok: "list_all passed_over [?bad]" "usable ?good" by (simp_all add: passed_over_def usable_def)
  then have "\<exists>bad a rest. addresses ?e = bad @ a # rest \<and> list_all passed_over bad \<and> usable a \<and> try_sock a = 6"
    by (intro exI [of _ "[?bad]"] exI [of _ ?good] exI [of _ "[]"]) simp
  moreover note start_server_binds [of ?e 6 "[?bad]" ?good "[]"]
  ultimately have "snd (start_server ?e) = Inr 6" "fst (start_server ?e) = opened_in_vain [?bad]" using ok by simp_all
  then show ?thesis by (simp add: Let_def opened_in_vain_def)
qed

text \<open>The command line options have no effect: as root and with at most four arguments the server always listens
  on port 65501 and serves the directory in the environment variable \<^verbatim>\<open>PWD\<close>; and a command line that
  gives both options (five arguments with the program name) is refused.\<close>

theorem main_server_options:
  assumes "\<forall>n. signals e n" "uid e = 0"
  shows "(0 \<le> argc e \<and> argc e \<le> 4 \<longrightarrow>
      snd (main_server e) = snd (bind (start_server (listening e)) (\<lambda>l. serve_loop l (env_pwd e) (inputs e))) \<and>
      Call ''getaddrinfo port 65501'' \<in> set (fst (main_server e))) \<and>
    (argc e = 5 \<longrightarrow> snd (main_server e) = Inl (Exit 1))"
  using assms
  by (auto simp: main_server_def set_sig_handler_def install_def args_loop_ignores isRoot_def fst_snd_seq emit_def
      split: option.splits)

definition sample_main :: "int \<Rightarrow> main_env" where
  "sample_main n = \<lparr>signals = (\<lambda>_. True), uid = 0, argc = n, argv0 = Some ''./server -p 80'', env_pwd = Some ''/srv'',
     listening = \<lparr>getaddrinfo_ok = True, addresses = [], listen_ok = True, sigaction_ok = True\<rparr>, inputs = []\<rparr>"

theorem main_server_options_witness:
  "snd (main_server (sample_main 5)) = Inl (Exit 1) \<and>
   Call ''getaddrinfo port 65501'' \<in> set (fst (main_server (sample_main 3)))"
  using main_server_options [of "sample_main 5"] main_server_options [of "sample_main 3"] by (simp add: sample_main_def)

text \<open>Shutting down by a signal: each of the four handled signals closes the listening socket exactly once, frees the
  TLS library, and ends the process with its own status, so that the connections waiting behind it are
  not served.\<close>

theorem serve_loop_signal:
  assumes "listen_sock \<noteq> 0"
  shows "snd (serve_loop listen_sock root (Deliver s # rest)) =
      Inl (Exit (case s of Hup \<Rightarrow> 1 | Intr \<Rightarrow> 2 | Quit \<Rightarrow> 3 | Segv \<Rightarrow> 4)) \<and>
    count_list (fst (serve_loop listen_sock root (Deliver s # rest))) (Close listen_sock) = 1 \<and>
    sent fd (fst (serve_loop listen_sock root (Deliver s # rest))) = []"
  using assms by (simp add: parent_sig_handler_eq sig_cleanup_eq seq_pair_halt)

theorem serve_loop_signal_witness:
  "snd (serve_loop 3 None [Deliver Intr, Deliver Hup]) = Inl (Exit 2)"
  using serve_loop_signal [of 3 None Intr "[Deliver Hup]" 0] by simp

text \<open>The \<^verbatim>\<open>SIGCHLD\<close> handler reaps all children that have ended: with \<open>n\<close> of them it makes \<open>n + 1\<close> calls, returns,
  and leaves \<^verbatim>\<open>errno\<close> as it was, whatever the calls put there.\<close>

theorem child_sig_handler_reaps:
  assumes "\<forall>i < n. 0 < fst (wp i)" "fst (wp n) \<le> 0"
  shows "child_sig_handler wp errno = ret (n + 1, errno)"
  using reap_loop_eq [of n wp 0 errno] assms by (simp add: child_sig_handler_def Let_def)

theorem child_sig_handler_reaps_witness:
  "child_sig_handler (\<lambda>k. if k < 2 then (100 + int k, 0) else (- 1, 10)) 4 = ret (3, 4)"
  using child_sig_handler_reaps [of 2 "\<lambda>k. if k < 2 then (100 + int k, 0) else (- 1, 10)" 4] by simp

section \<open>What a connection leaves behind\<close>

text \<open>The calls that create and release the TLS objects of a connection, as they occur in a log.\<close>

definition tls_calls :: "event list \<Rightarrow> event list" where
  "tls_calls l = filter (\<lambda>e. e \<in> {Call ''SSL_CTX_new'', Call ''SSL_new'', Call ''SSL_free'', Call ''SSL_CTX_free''}) l"

lemma tls_calls_simps [simp]:
  "tls_calls [] = []" "tls_calls (l @ l') = tls_calls l @ tls_calls l'" "tls_calls [Close s] = []"
  "tls_calls (Close s # l) = tls_calls l"
  by (simp_all add: tls_calls_def)

definition tls_free :: "event \<Rightarrow> bool" where
  "tls_free e \<longleftrightarrow> tls_calls [e] = []"

lemma tls_free_simps [simp]:
  "tls_free (Fault f)" "tls_free (Stderr t)" "tls_free (SslWrite t)" "tls_free (SockWrite s t)" "tls_free (Close s)"
  "tls_free (Call c) \<longleftrightarrow> c \<notin> {''SSL_CTX_new'', ''SSL_new'', ''SSL_free'', ''SSL_CTX_free''}"
  by (auto simp: tls_free_def tls_calls_def)

lemma tls_free_faults: "log_all is_fault m \<Longrightarrow> log_all tls_free m"
  by (auto simp: log_all_def list_all_iff elim!: is_fault.elims)

text \<open>The TLS objects a run has created and released by the time it returns.\<close>

definition makes :: "event list \<Rightarrow> 'a run \<Rightarrow> bool" where
  "makes cs m \<longleftrightarrow> (\<forall>x. snd m = Inr x \<longrightarrow> tls_calls (fst m) = cs)"

lemma makes_free: "log_all tls_free m \<Longrightarrow> makes [] m"
  unfolding makes_def log_all_def by (induction "fst m") (auto simp: tls_free_def tls_calls_def list_all_iff filter_empty_conv)

lemma makes_bind: "makes cs m \<Longrightarrow> (\<And>x. makes ds (k x)) \<Longrightarrow> makes (cs @ ds) (bind m k)"
  by (auto simp: makes_def bind_def split: sum.splits)

lemma makes_seq: "makes cs m \<Longrightarrow> makes ds k \<Longrightarrow> makes (cs @ ds) (seq m k)"
  unfolding seq_def by (rule makes_bind)

lemma makes_call: "c \<in> {''SSL_CTX_new'', ''SSL_new'', ''SSL_free'', ''SSL_CTX_free''} \<Longrightarrow> makes [Call c] (emit (Call c))"
  by (auto simp: makes_def emit_def tls_calls_def)

lemmas makes_bind_free = makes_bind [where cs = "[]", OF makes_free, simplified]
  and makes_seq_free = makes_seq [where cs = "[]", OF makes_free, simplified]

lemma readall_tls_free: "log_all tls_free (readall rd)"
proof -
  have "log_all tls_free (readall_loop rd k tot buf)" for k tot buf
  proof (induction rd k tot buf rule: readall_loop.induct)
    case (1 rd k tot buf)
    then show ?case
      by (simp add: readall_loop.simps [of rd k tot buf] Let_def) (intro log_intros conjI impI; simp)
  qed
  then show ?thesis unfolding readall_def split_def by (intro log_intros)
qed

lemma sendall_tls_free: "log_all tls_free (sendall wr buf len)"
  unfolding sendall_def by (auto intro!: log_intros split: option.splits)

lemma routeClient_tls_free: "log_all tls_free (routeClient fs r sock root)"
proof -
  have rf: "log_all tls_free (readFile fs p)" for p
    unfolding readFile_def Let_def by (auto simp: itoa_minus_one intro!: log_intros)
  have lw: "log_all tls_free (lit_write s t n)" for s t n
    unfolding lit_write_def by (auto intro!: log_intros)
  have fd: "log_all tls_free (sendall_to_fd d)" for d unfolding sendall_to_fd_def by (intro log_intros)
  show ?thesis unfolding routeClient_def route_get_def Let_def by (intro log_intros rf lw fd; simp)
qed

lemma report_tls_free [log_intros]: "log_all tls_free (report e msg q)" "log_all tls_free (ERR_print_errors_fp e q)"
  unfolding report_def printSSLErr_def print_format_def print_line_def ERR_print_errors_fp_def split_def Let_def
  by (auto intro!: log_intros split: option.split)

lemma set_up_tls_free:
  "log_all tls_free (initSSL e)" "log_all tls_free (loadCerts e)" "log_all tls_free (showCerts None)"
  "log_all tls_free (ossl_object e w b)"
  unfolding initSSL_def loadCerts_def ossl_object_def showCerts_none
  by (intro log_intros; simp)+ (simp add: log_all_def)+

lemma initServerCTX_makes: "makes [Call ''SSL_CTX_new''] (initServerCTX e)"
proof -
  have "makes ([Call ''SSL_CTX_new''] @ []) (seq (emit (Call ''SSL_CTX_new'')) m)" if "log_all tls_free m" for m :: "unit option run"
    using that by (intro makes_seq makes_call makes_free) simp_all
  then show ?thesis unfolding initServerCTX_def by (simp add: makes_seq_free log_intros)
qed

lemma configServerSSL_makes: "makes ([Call ''SSL_CTX_new''] @ [Call ''SSL_new''] @ []) (configServerSSL e s)"
proof -
  have accept: "makes [] (if handshake e \<le> 0 then seq t (seq m (halt (Exit 1))) else ret ())" for t m
    by (auto simp: makes_def seq_def bind_def split: sum.splits)
  show ?thesis
    unfolding configServerSSL_def
    by (rule makes_bind_free, rule set_up_tls_free, rule makes_bind, rule initServerCTX_makes,
        intro makes_bind_free makes_seq_free makes_seq [of "[Call ''SSL_new'']"] makes_call set_up_tls_free log_intros accept; simp)
qed

lemma respond_makes: "makes [Call ''SSL_CTX_new'', Call ''SSL_new''] (respond e sock root)"
proof -
  have "makes (([Call ''SSL_CTX_new''] @ [Call ''SSL_new''] @ []) @ []) (respond e sock root)"
    unfolding respond_def split_def getResponseLen_def
    by (intro makes_seq configServerSSL_makes makes_free log_intros readall_tls_free
        tls_free_faults [OF parseRequest_faults] sendall_tls_free routeClient_tls_free; simp)
  then show ?thesis by simp
qed

text \<open>C23. The server never releases the TLS objects of a connection. For every queue of connections that it works off completely,
  whatever they bring, the calls that create and release a context or a connection object are exactly one creation of each
  for every accepted connection: after \<open>n\<close> of them, \<open>n\<close> contexts and \<open>n\<close> connections are still allocated.\<close>

theorem serve_loop_leaks_tls:
  assumes "snd (serve_loop listen_sock root (map (\<lambda>(sock, e). Accept sock e) cs)) = Inr ()"
  shows "tls_calls (fst (serve_loop listen_sock root (map (\<lambda>(sock, e). Accept sock e) cs))) =
    concat (replicate (length (filter (\<lambda>(sock, e). 0 \<le> sock) cs)) [Call ''SSL_CTX_new'', Call ''SSL_new''])"
  using assms
proof (induction cs)
  case (Cons c cs)
  obtain sock e where c: "c = (sock, e)" by fastforce
  show ?case
  proof (cases "sock < 0")
    case True
    then show ?thesis using Cons c by simp
  next
    case False
    let ?m = "with_segv listen_sock (respond e sock root)"
    have r: "snd ?m = Inr ()" "snd (serve_loop listen_sock root (map (\<lambda>(sock, e). Accept sock e) cs)) = Inr ()"
      using Cons.prems c False by (auto simp: fst_snd_seq emit_def split: sum.splits)
    then have m: "?m = respond e sock root"
      using parent_sig_handler_eq [of listen_sock] sig_cleanup_eq [of listen_sock]
      by (auto simp: with_segv_def split: sum.splits halt.splits if_splits)
    then have "tls_calls (fst ?m) = [Call ''SSL_CTX_new'', Call ''SSL_new'']" using r(1) respond_makes [of e sock root] by (simp add: makes_def)
    then show ?thesis using Cons.IH [OF r(2)] c False r(1) by (simp add: fst_snd_seq emit_def)
  qed
qed simp

theorem serve_loop_leaks_tls_witness:
  "let e = sample_conn (''HEAD / HTTP/1.1'' @ crlf @ crlf) no_files in
   tls_calls (fst (serve_loop 3 None [Accept 4 e, Accept (- 1) e, Accept 5 e])) =
     [Call ''SSL_CTX_new'', Call ''SSL_new'', Call ''SSL_CTX_new'', Call ''SSL_new'']"
proof -
  let ?e = "sample_conn (''HEAD / HTTP/1.1'' @ crlf @ crlf) no_files"
  from sample_head have "snd (respond ?e s None) = Inr ()" for s using respond_traffic(1) by blast
  then have "snd (serve_loop 3 None (map (\<lambda>(sock, e). Accept sock e) [(4, ?e), (- 1, ?e), (5, ?e)])) = Inr ()"
    by (simp add: with_segv_def fst_snd_seq emit_def)
  from serve_loop_leaks_tls [OF this] show ?thesis by (simp add: Let_def eval_nat_numeral)
qed

end
