(* ===== verification/Vectors.thy ===== *)
theory Vectors
  imports C_Prelude
begin

text \<open>
  \<^verbatim>\<open>src/util/vector.c\<close> and \<^verbatim>\<open>vector.h\<close>: the two growing integer vectors. The two structures have the same
  fields and are one record here. \<^verbatim>\<open>size_t\<close> is \<open>64 word\<close>; a cell that was allocated and not written is \<open>None\<close>.
  Allocations succeed and give the number of bytes asked for.
\<close>

section \<open>The structure\<close>

type_synonym size_t = "64 word"

record vector =
  vec_size :: size_t
  capacity :: size_t
  data :: "int option list"

text \<open>The cells that fit \<^verbatim>\<open>sizeof(int) * n\<close> bytes, a product of \<^verbatim>\<open>size_t\<close>.\<close>

definition int_cells :: "size_t \<Rightarrow> nat" where
  "int_cells n = unat (4 * n) div 4"

definition realloc_cells :: "int option list \<Rightarrow> nat \<Rightarrow> int option list" where
  "realloc_cells xs n = take n xs @ replicate (n - length xs) None"

text \<open>The conversion of an \<^verbatim>\<open>int\<close> index to \<^verbatim>\<open>size_t\<close> in a comparison with one.\<close>

definition to_size :: "int \<Rightarrow> size_t" where
  "to_size i = word_of_int i"


section \<open>The integer vector\<close>

definition int_vector_init :: "size_t \<Rightarrow> vector" where
  "int_vector_init n = \<lparr>vec_size = 0, capacity = n, data = replicate (int_cells n) None\<rparr>"

definition int_vector_resize :: "vector \<Rightarrow> vector" where
  "int_vector_resize v =
     (if capacity v \<le> vec_size v then
        (let c = capacity v * 2 in v\<lparr>capacity := c, data := realloc_cells (data v) (int_cells c)\<rparr>)
      else v)"

definition int_vector_append :: "vector \<Rightarrow> int \<Rightarrow> vector run" where
  "int_vector_append v x =
     (let v1 = int_vector_resize v; n = unat (vec_size v1) in
      seq (guard_bounds ''data'' (length (data v1)) n)
      (ret (v1\<lparr>data := (data v1)[n := Some x], vec_size := vec_size v1 + 1\<rparr>)))"

definition int_vector_get :: "vector \<Rightarrow> int \<Rightarrow> int run" where
  "int_vector_get v index =
     (if vec_size v \<le> to_size index \<or> index < 0 then halt (Exit 1)
      else if nat index < length (data v) then
        (case data v ! nat index of Some x \<Rightarrow> ret x | None \<Rightarrow> halt (Crash (UninitRead ''data'')))
      else halt (Crash (BadPointer ''data'')))"

text \<open>The loop that fills with zeros; it may run for ever (a negative index is a large \<^verbatim>\<open>size_t\<close>).\<close>

partial_function (option) int_vector_fill :: "size_t \<Rightarrow> vector \<Rightarrow> event list \<Rightarrow> (event list \<times> (halt + vector)) option" where
  "int_vector_fill index v log =
     (if vec_size v \<le> index then
        (case snd (int_vector_append v 0) of
           Inl h \<Rightarrow> Some (log @ fst (int_vector_append v 0), Inl h)
         | Inr v' \<Rightarrow> int_vector_fill index v' (log @ fst (int_vector_append v 0)))
      else Some (log, Inr v))"

definition int_vector_set :: "vector \<Rightarrow> int \<Rightarrow> int \<Rightarrow> vector run" where
  "int_vector_set v index x =
     (case int_vector_fill (to_size index) v [] of
        None \<Rightarrow> halt Hang
      | Some m \<Rightarrow> bind m (\<lambda>v1.
          if 0 \<le> index then
            seq (guard_bounds ''data'' (length (data v1)) (nat index))
            (ret (v1\<lparr>data := (data v1)[nat index := Some x]\<rparr>))
          else halt (Crash (BadPointer ''data''))))"

definition int_vector_free :: "vector \<Rightarrow> unit run" where
  "int_vector_free v = emit (Call ''free(vector->data)'')"


section \<open>The incrementing vector\<close>

definition VECTOR_CAPACITY :: size_t where "VECTOR_CAPACITY = 1000"

definition increment_vector_init :: "size_t \<Rightarrow> vector" where
  "increment_vector_init n = \<lparr>vec_size = 0, capacity = n, data = replicate (int_cells n) None\<rparr>"

definition increment_vector_double_capacity_if_full :: "vector \<Rightarrow> vector" where
  "increment_vector_double_capacity_if_full v =
     (if capacity v \<le> vec_size v then
        (let c = capacity v * 2 in v\<lparr>capacity := c, data := realloc_cells (data v) (int_cells c)\<rparr>)
      else v)"

definition increment_vector_append :: "vector \<Rightarrow> int \<Rightarrow> vector run" where
  "increment_vector_append v x =
     (let v1 = increment_vector_double_capacity_if_full v; n = unat (vec_size v1) in
      seq (guard_bounds ''data'' (length (data v1)) n)
      (ret (v1\<lparr>data := (data v1)[n := Some x], vec_size := vec_size v1 + 1\<rparr>)))"

definition increment_vector_get :: "vector \<Rightarrow> int \<Rightarrow> int run" where
  "increment_vector_get v index =
     (if vec_size v \<le> to_size index \<or> index < 0 then halt (Exit 1)
      else if nat index < length (data v) then
        (case data v ! nat index of Some x \<Rightarrow> ret x | None \<Rightarrow> halt (Crash (UninitRead ''data'')))
      else halt (Crash (BadPointer ''data'')))"

partial_function (option) increment_vector_fill :: "size_t \<Rightarrow> vector \<Rightarrow> event list \<Rightarrow> (event list \<times> (halt + vector)) option" where
  "increment_vector_fill index v log =
     (if vec_size v \<le> index then
        (case snd (increment_vector_append v 0) of
           Inl h \<Rightarrow> Some (log @ fst (increment_vector_append v 0), Inl h)
         | Inr v' \<Rightarrow> increment_vector_fill index v' (log @ fst (increment_vector_append v 0)))
      else Some (log, Inr v))"

definition increment_vector_set :: "vector \<Rightarrow> int \<Rightarrow> int \<Rightarrow> vector run" where
  "increment_vector_set v index x =
     (case increment_vector_fill (to_size index) v [] of
        None \<Rightarrow> halt Hang
      | Some m \<Rightarrow> bind m (\<lambda>v1.
          if 0 \<le> index then
            seq (guard_bounds ''data'' (length (data v1)) (nat index))
            (ret (v1\<lparr>data := (data v1)[nat index := Some x]\<rparr>))
          else halt (Crash (BadPointer ''data''))))"

definition increment_vector_free :: "vector \<Rightarrow> unit run" where
  "increment_vector_free v = emit (Call ''free(vector->data)'')"


section \<open>The sequence a vector stands for\<close>

definition elems :: "vector \<Rightarrow> int list" where
  "elems v = map the (take (unat (vec_size v)) (data v))"

definition vec_ok :: "vector \<Rightarrow> bool" where
  "vec_ok v \<longleftrightarrow> 0 < unat (capacity v) \<and> unat (capacity v) < 2 ^ 62 \<and> length (data v) = unat (capacity v) \<and>
     unat (vec_size v) \<le> unat (capacity v) \<and> (\<forall>x \<in> set (take (unat (vec_size v)) (data v)). x \<noteq> None)"

lemma int_cells_small:
  assumes "unat n < 2 ^ 62"
  shows "int_cells n = unat n"
proof -
  have "unat (4 * n) = 4 * unat n"
    using assms by (subst unat_mult_lem [THEN iffD1]) auto
  then show ?thesis by (simp add: int_cells_def)
qed

lemma length_elems: "vec_ok v \<Longrightarrow> length (elems v) = unat (vec_size v)"
  by (simp add: vec_ok_def elems_def)

lemma resize_ok:
  assumes "vec_ok v" "unat (vec_size v) < 2 ^ 32"
  shows "vec_ok (int_vector_resize v)" "elems (int_vector_resize v) = elems v"
    "unat (vec_size v) < length (data (int_vector_resize v))" "vec_size (int_vector_resize v) = vec_size v"
proof -
  let ?r = "int_vector_resize v"
  show sz: "vec_size ?r = vec_size v" by (simp add: int_vector_resize_def Let_def)
  have *: "vec_ok ?r \<and> elems ?r = elems v \<and> unat (vec_size v) < length (data ?r)"
  proof (cases "capacity v \<le> vec_size v")
    case True
    then have c: "unat (capacity v) = unat (vec_size v)" using assms(1) by (simp add: vec_ok_def word_le_nat_alt)
    then have d: "unat (capacity v * 2) = 2 * unat (capacity v)"
      using assms(2) by (subst unat_mult_lem [THEN iffD1]) auto
    then have "int_cells (capacity v * 2) = 2 * unat (capacity v)"
      using assms(2) c by (subst int_cells_small) auto
    with True c d assms show ?thesis
      by (simp add: int_vector_resize_def Let_def vec_ok_def elems_def realloc_cells_def)
  next
    case False
    with assms(1) show ?thesis by (simp add: int_vector_resize_def vec_ok_def word_le_nat_alt)
  qed
  then show "vec_ok ?r" "elems ?r = elems v" "unat (vec_size v) < length (data ?r)" by simp_all
qed

lemma append_ok:
  assumes "vec_ok v" "length (elems v) < 2 ^ 32"
  shows "\<exists>v'. int_vector_append v x = ret v' \<and> vec_ok v' \<and> elems v' = elems v @ [x] \<and>
    unat (vec_size v') = unat (vec_size v) + 1"
proof -
  let ?r = "int_vector_resize v" and ?n = "unat (vec_size v)"
  have n: "?n < 2 ^ 32" using assms by (simp add: length_elems)
  note r = resize_ok [OF assms(1) n]
  have s: "unat (vec_size v + 1) = ?n + 1" using n by (subst unat_add_lem [THEN iffD1]) auto
  let ?v = "?r\<lparr>data := (data ?r)[?n := Some x], vec_size := vec_size v + 1\<rparr>"
  have t: "take (?n + 1) ((data ?r)[?n := Some x]) = take ?n (data ?r) @ [Some x]"
    using r(3) by (simp add: take_Suc_conv_app_nth)
  have "elems ?v = elems v @ [x]" using r(2,4) t by (simp add: elems_def s)
  moreover have "vec_ok ?v" using r(1,3,4) t by (auto simp: vec_ok_def s)
  moreover have "int_vector_append v x = ret ?v" using r(3,4) by (simp add: int_vector_append_def Let_def)
  ultimately show ?thesis using s by auto
qed

lemma fill_ok:
  assumes "vec_ok v" "i < 2 ^ 31" "length (elems v) \<le> i + 1 \<or> k = 0" "k = i + 1 - length (elems v)"
  shows "\<exists>v'. int_vector_fill (word_of_nat i) v log = Some (log, Inr v') \<and> vec_ok v' \<and>
    elems v' = elems v @ replicate k 0"
  using assms(1,3,4)
proof (induction k arbitrary: v)
  case 0
  then have "i < unat (vec_size v)" by (simp add: length_elems)
  then have "\<not> vec_size v \<le> word_of_nat i" using assms(2) by (simp add: word_le_nat_alt unat_of_nat)
  with 0 show ?case by (simp add: int_vector_fill.simps)
next
  case (Suc k)
  then have len: "length (elems v) \<le> i" by simp
  then have le: "vec_size v \<le> word_of_nat i"
    using assms(2) Suc.prems(1) by (simp add: length_elems word_le_nat_alt unat_of_nat)
  obtain v1 where v1: "int_vector_append v 0 = ret v1" "vec_ok v1" "elems v1 = elems v @ [0]"
    using append_ok [OF Suc.prems(1), of 0] len assms(2) by auto
  have k: "k = i + 1 - length (elems v1)" "length (elems v1) \<le> i + 1 \<or> k = 0"
    using Suc.prems(3) len v1(3) by simp_all
  from Suc.IH [OF v1(2) k(2,1)] obtain v' where
    "int_vector_fill (word_of_nat i) v1 log = Some (log, Inr v')" "vec_ok v'" "elems v' = elems v1 @ replicate k 0"
    by blast
  with v1 le show ?case by (simp add: int_vector_fill.simps [of _ v])
qed

lemma to_size_nat: "0 \<le> i \<Longrightarrow> to_size i = word_of_nat (nat i)"
  by (simp add: to_size_def)

lemma get_ok:
  assumes "vec_ok v" "- (2 ^ 31) \<le> i" "i < 2 ^ 31"
  shows "int_vector_get v i = (if 0 \<le> i \<and> nat i < length (elems v) then ret (elems v ! nat i) else halt (Exit 1))"
proof (cases "0 \<le> i")
  case True
  then obtain n where "i = int n" by (metis nonneg_int_cases)
  then have u: "unat (to_size i) = nat i" using assms(3) by (simp add: to_size_def unat_of_nat)
  show ?thesis
  proof (cases "nat i < unat (vec_size v)")
    case in_range: True
    then have "nat i < length (data v)" using assms(1) by (simp add: vec_ok_def)
    moreover have "data v ! nat i \<in> set (take (unat (vec_size v)) (data v))"
      using in_range calculation by (metis in_set_conv_nth length_take min_less_iff_conj nth_take)
    ultimately obtain y where "data v ! nat i = Some y" using assms(1) by (auto simp: vec_ok_def)
    with True in_range u \<open>nat i < length (data v)\<close> show ?thesis
      using length_elems [OF assms(1)] by (simp add: int_vector_get_def word_le_nat_alt elems_def)
  next
    case False
    with True u show ?thesis using length_elems [OF assms(1)] by (simp add: int_vector_get_def word_le_nat_alt)
  qed
qed (simp add: int_vector_get_def)

lemma set_ok:
  assumes "vec_ok v" "0 \<le> i" "i < 2 ^ 31"
  shows "\<exists>v'. int_vector_set v i x = ret v' \<and> vec_ok v' \<and>
    elems v' = (elems v @ replicate (nat i + 1 - length (elems v)) 0)[nat i := x]"
proof -
  let ?k = "nat i + 1 - length (elems v)"
  obtain w where w: "int_vector_fill (to_size i) v [] = Some ([], Inr w)" "vec_ok w"
    "elems w = elems v @ replicate ?k 0"
    using fill_ok [OF assms(1), of "nat i" ?k "[]"] assms(2,3) by (fastforce simp: to_size_nat)
  then have "nat i < length (elems w)" by simp
  then have i: "nat i < unat (vec_size w)" "nat i < length (data w)"
    using w(2) by (simp_all add: length_elems vec_ok_def)
  let ?v = "w\<lparr>data := (data w)[nat i := Some x]\<rparr>"
  have t: "take (unat (vec_size w)) ((data w)[nat i := Some x]) = (take (unat (vec_size w)) (data w))[nat i := Some x]"
    using i by (simp add: take_update_swap)
  have "elems ?v = (elems w)[nat i := x]" by (simp add: elems_def t map_update)
  moreover have "vec_ok ?v"
    using w(2) by (auto simp: vec_ok_def t dest!: set_update_subset_insert [THEN subsetD])
  moreover have "int_vector_set v i x = ret ?v"
    using w(1) assms(2) i by (simp add: int_vector_set_def bind_pair) (simp add: ret_def)
  ultimately show ?thesis using w(3) by auto
qed

lemma fill_max: "int_vector_fill (- 1) v log = None"
proof (rule ccontr)
  assume "int_vector_fill (- 1) v log \<noteq> None"
  then obtain r where r: "int_vector_fill (- 1) v log = Some r" by blast
  have "(- 1 :: size_t) = - 1 \<longrightarrow> False"
  proof (rule int_vector_fill.raw_induct [OF _ r, where P = "\<lambda>index v log r. index = - 1 \<longrightarrow> False"], intro impI, goal_cases)
    case (1 f index v log r)
    have "vec_size v \<le> index" by (simp add: 1(3))
    moreover have "\<exists>v'. snd (int_vector_append v 0) = Inr v'"
      by (simp add: int_vector_append_def Let_def guard_bounds_def seq_emit)
    ultimately obtain v' l' where "f index v' l' = Some r" using 1(2) by auto
    from 1(1) [OF this] 1(3) show False by simp
  qed
  then show False by simp
qed

text \<open>The second vector runs the same code.\<close>

lemma increment_eq:
  "increment_vector_init = int_vector_init" "increment_vector_append = int_vector_append"
  "increment_vector_get = int_vector_get"
  by (simp_all add: fun_eq_iff increment_vector_init_def int_vector_init_def increment_vector_append_def
      int_vector_append_def increment_vector_double_capacity_if_full_def int_vector_resize_def
      increment_vector_get_def int_vector_get_def)

lemma increment_fill_eq: "increment_vector_fill = int_vector_fill"
proof (intro ext)
  fix i v log
  have 1: "increment_vector_fill i v log = Some r" if "int_vector_fill i v log = Some r" for r
  proof (rule int_vector_fill.raw_induct [OF _ that, where P = "\<lambda>i v l r. increment_vector_fill i v l = Some r"], goal_cases)
    case (1 f index v log r)
    then show ?case by (auto simp: increment_vector_fill.simps [of index v] increment_eq split: if_splits sum.splits)
  qed
  have 2: "int_vector_fill i v log = Some r" if "increment_vector_fill i v log = Some r" for r
  proof (rule increment_vector_fill.raw_induct [OF _ that, where P = "\<lambda>i v l r. int_vector_fill i v l = Some r"], goal_cases)
    case (1 f index v log r)
    then show ?case by (auto simp: int_vector_fill.simps [of index v] increment_eq split: if_splits sum.splits)
  qed
  show "increment_vector_fill i v log = int_vector_fill i v log"
    using 1 2 by (metis not_Some_eq)
qed

lemma increment_set_eq: "increment_vector_set = int_vector_set"
  by (simp add: fun_eq_iff increment_vector_set_def int_vector_set_def increment_fill_eq)


section \<open>The interface of a growing array\<close>

locale dyn_array =
  fixes init :: "size_t \<Rightarrow> 'v"
    and append :: "'v \<Rightarrow> int \<Rightarrow> 'v run"
    and get :: "'v \<Rightarrow> int \<Rightarrow> int run"
    and set_at :: "'v \<Rightarrow> int \<Rightarrow> int \<Rightarrow> 'v run"
    and abs :: "'v \<Rightarrow> int list"
    and ok :: "'v \<Rightarrow> bool"
  assumes init_law: "0 < unat n \<Longrightarrow> unat n < 2 ^ 62 \<Longrightarrow> ok (init n) \<and> abs (init n) = []"
    and append_law: "ok v \<Longrightarrow> length (abs v) < 2 ^ 32 \<Longrightarrow>
      \<exists>v'. append v x = ret v' \<and> ok v' \<and> abs v' = abs v @ [x]"
    and get_law: "ok v \<Longrightarrow> - (2 ^ 31) \<le> i \<Longrightarrow> i < 2 ^ 31 \<Longrightarrow>
      get v i = (if 0 \<le> i \<and> nat i < length (abs v) then ret (abs v ! nat i) else halt (Exit 1))"
    and set_law: "ok v \<Longrightarrow> 0 \<le> i \<Longrightarrow> i < 2 ^ 31 \<Longrightarrow>
      \<exists>v'. set_at v i x = ret v' \<and> ok v' \<and> abs v' = (abs v @ replicate (nat i + 1 - length (abs v)) 0)[nat i := x]"
begin

fun append_all :: "'v \<Rightarrow> int list \<Rightarrow> 'v run" where
  "append_all v [] = ret v"
| "append_all v (x # xs) = bind (append v x) (\<lambda>v'. append_all v' xs)"

lemma append_all_law:
  assumes "ok v" "length (abs v) + length xs \<le> 2 ^ 32"
  shows "\<exists>v'. append_all v xs = ret v' \<and> ok v' \<and> abs v' = abs v @ xs"
  using assms
proof (induction xs arbitrary: v)
  case (Cons x xs)
  then obtain v1 where v1: "append v x = ret v1" "ok v1" "abs v1 = abs v @ [x]"
    using append_law [of v x] by auto
  with Cons.IH [OF v1(2)] Cons.prems(2) show ?case by auto
qed simp

lemma set_get:
  assumes "ok v" "0 \<le> i" "i < 2 ^ 31" "0 \<le> j" "j < 2 ^ 31"
  shows "\<exists>v'. set_at v i x = ret v' \<and> ok v' \<and> get v' j =
    (if j = i then ret x else if nat j < length (abs v) then get v j
     else if j < i then ret 0 else halt (Exit 1))"
proof -
  obtain v' where v': "set_at v i x = ret v'" "ok v'"
    "abs v' = (abs v @ replicate (nat i + 1 - length (abs v)) 0)[nat i := x]"
    using set_law [OF assms(1-3)] by blast
  then show ?thesis
    using assms by (auto simp: get_law nth_append nth_list_update nat_eq_iff2)
qed

end

interpretation int_vec: dyn_array int_vector_init int_vector_append int_vector_get int_vector_set elems vec_ok
proof unfold_locales
  fix n :: size_t
  assume "0 < unat n" "unat n < 2 ^ 62"
  then show "vec_ok (int_vector_init n) \<and> elems (int_vector_init n) = []"
    by (simp add: vec_ok_def int_vector_init_def elems_def int_cells_small)
next
  fix v x
  assume "vec_ok v" "length (elems v) < 2 ^ 32"
  then show "\<exists>v'. int_vector_append v x = ret v' \<and> vec_ok v' \<and> elems v' = elems v @ [x]"
    using append_ok by blast
qed (simp_all only: get_ok set_ok)

interpretation inc_vec: dyn_array increment_vector_init increment_vector_append increment_vector_get increment_vector_set
  elems vec_ok
  unfolding increment_eq increment_set_eq by unfold_locales

section \<open>Properties\<close>

text \<open>C37. The vector refines the list of its elements: starting from a vector of any initial capacity but 0,
  appending \<open>xs\<close> (at most \<open>2 ^ 32\<close> elements) never leaves the allocation, and then every read of an
  index inside the list gives its element and every other index, also a negative one, exits with status 1.\<close>

theorem int_vector_refines_list:
  assumes "0 < unat n" "unat n < 2 ^ 62" "length xs \<le> 2 ^ 32" "- (2 ^ 31) \<le> i" "i < 2 ^ 31"
  shows "\<exists>v. int_vec.append_all (int_vector_init n) xs = ret v \<and> elems v = xs \<and>
    int_vector_get v i = (if 0 \<le> i \<and> nat i < length xs then ret (xs ! nat i) else halt (Exit 1))"
  using int_vec.append_all_law [of "int_vector_init n" xs] int_vec.init_law [OF assms(1,2)] assms(3-)
  by (auto simp: int_vec.get_law)

theorem int_vector_refines_list_witness:
  "\<exists>v. int_vec.append_all (int_vector_init 2) [7, 8, 9] = ret v \<and> elems v = [7, 8, 9] \<and> int_vector_get v 2 = ret 9"
  using int_vector_refines_list [of 2 "[7, 8, 9]" 2] by simp

text \<open>\<^verbatim>\<open>int_vector_set\<close> on an index that is not negative returns, stays inside the allocation and makes that
  element the given value; the elements before the old end are kept, the gap up to the index is filled
  with zeros, and the vector ends at the index if it was shorter.\<close>

theorem int_vector_set_get:
  assumes "vec_ok v" "0 \<le> i" "i < 2 ^ 31" "0 \<le> j" "j < 2 ^ 31"
  shows "\<exists>v'. int_vector_set v i x = ret v' \<and> vec_ok v' \<and> int_vector_get v' j =
    (if j = i then ret x else if nat j < length (elems v) then int_vector_get v j
     else if j < i then ret 0 else halt (Exit 1))"
  by (rule int_vec.set_get [OF assms])

theorem int_vector_set_get_witness:
  "\<exists>v'. int_vector_set (int_vector_init 1) 5 42 = ret v' \<and> vec_ok v' \<and> int_vector_get v' 3 = ret 0"
  using int_vector_set_get [of "int_vector_init 1" 5 3 42]
  by (simp add: vec_ok_def int_vector_init_def int_cells_def elems_def)

text \<open>The corners of the vector. An initial capacity of 0 is never left (doubling keeps it 0): every append writes
  outside the allocation. Setting index -1 never returns: converted to \<^verbatim>\<open>size_t\<close> it is the largest value, and
  no size is above it.\<close>

theorem int_vector_corners:
  "faults (int_vector_append (int_vector_init 0) x) = [Fault (OutOfBounds ''data'')] \<and>
   (\<exists>v. snd (int_vector_append (int_vector_init 0) x) = Inr v \<and> capacity v = 0 \<and> data v = []) \<and>
   int_vector_set w (- 1) x = halt Hang"
  by (simp add: int_vector_append_def int_vector_init_def int_vector_resize_def int_cells_def realloc_cells_def Let_def
      guard_bounds_out seq_emit int_vector_set_def to_size_def fill_max)

text \<open>The incrementing vector is the same data structure: all of its operations are equal to those of the integer
  vector, the possibly endless loop of \<^verbatim>\<open>set\<close> included.\<close>

theorem increment_vector_equiv:
  "increment_vector_init = int_vector_init \<and> increment_vector_append = int_vector_append \<and>
   increment_vector_get = int_vector_get \<and> increment_vector_set = int_vector_set"
  by (simp add: increment_eq increment_set_eq)

end
