(* ===== verification/Database.thy ===== *)
theory Database
  imports C_Prelude
begin

text \<open>
  \<^verbatim>\<open>src/db/database.h\<close>: the queries on the user table. libpq is not part of the sources: whether a connection is
  made and what a query returns are parameters. Its connections and results are numbered in the order they
  are created, and the state keeps which of them are still live, so that a use after \<^verbatim>\<open>PQclear\<close> or
  \<^verbatim>\<open>PQfinish\<close> is a fault and one that is never released shows as a leak.
\<close>

section \<open>libpq\<close>

record pgresult =
  command_ok :: bool
  tuples_ok :: bool
  rows :: "string list list"
  outside :: cptr

text \<open>\<open>outside\<close> is what \<^verbatim>\<open>PQgetvalue\<close> answers for a row or column that the result does not have.\<close>

record libpq =
  conn_ok :: "nat \<Rightarrow> bool"
  exec :: "nat \<Rightarrow> string \<Rightarrow> pgresult"

record dbstate =
  next_conn :: nat
  live_conns :: "nat list"
  results :: "pgresult list"
  live_results :: "nat list"

definition db_start :: dbstate where
  "db_start = \<lparr>next_conn = 0, live_conns = [], results = [], live_results = []\<rparr>"

type_synonym 'a db = "dbstate \<Rightarrow> ('a \<times> dbstate) run"

definition dbret :: "'a \<Rightarrow> 'a db" where
  "dbret x = (\<lambda>s. ret (x, s))"

definition dbbind :: "'a db \<Rightarrow> ('a \<Rightarrow> 'b db) \<Rightarrow> 'b db" where
  "dbbind m k = (\<lambda>s. bind (m s) (\<lambda>(x, s'). k x s'))"

text \<open>A run that does not touch the library.\<close>

definition dblift :: "'a run \<Rightarrow> 'a db" where
  "dblift m = (\<lambda>s. bind m (\<lambda>x. ret (x, s)))"

definition PQconnectdb :: "nat db" where
  "PQconnectdb = (\<lambda>s. ret (next_conn s, s\<lparr>next_conn := next_conn s + 1, live_conns := next_conn s # live_conns s\<rparr>))"

definition PQfinish :: "nat \<Rightarrow> unit db" where
  "PQfinish c = (\<lambda>s.
     if c \<in> set (live_conns s) then ret ((), s\<lparr>live_conns := remove1 c (live_conns s)\<rparr>)
     else seq (emit (Fault (UseAfterFree ''conn''))) (ret ((), s)))"

text \<open>The queries sent are events.\<close>

definition PQexec :: "libpq \<Rightarrow> nat \<Rightarrow> string \<Rightarrow> nat db" where
  "PQexec pq c q = (\<lambda>s.
     seq (emit (Call q))
     (seq (if c \<in> set (live_conns s) then ret () else emit (Fault (UseAfterFree ''conn'')))
      (ret (length (results s),
            s\<lparr>results := results s @ [exec pq (length (results s)) q],
              live_results := length (results s) # live_results s\<rparr>))))"

definition use_result :: "nat \<Rightarrow> pgresult db" where
  "use_result r = (\<lambda>s.
     seq (if r \<in> set (live_results s) then ret () else emit (Fault (UseAfterFree ''res'')))
     (ret (results s ! r, s)))"

definition PQclear :: "nat \<Rightarrow> unit db" where
  "PQclear r = (\<lambda>s.
     if r \<in> set (live_results s) then ret ((), s\<lparr>live_results := remove1 r (live_results s)\<rparr>)
     else seq (emit (Fault (UseAfterFree ''res''))) (ret ((), s)))"

text \<open>A \<^verbatim>\<open>char *\<close> of this file: a literal, or a pointer into a result, which dangles once that is cleared.\<close>

datatype dbptr = Lit string | InResult nat string | NullPtr

definition PQgetvalue :: "nat \<Rightarrow> nat \<Rightarrow> nat \<Rightarrow> dbptr db" where
  "PQgetvalue r i j =
     dbbind (use_result r) (\<lambda>res. dbret
       (if i < length (rows res) \<and> j < length (rows res ! i) then InResult r (rows res ! i ! j)
        else case outside res of None \<Rightarrow> NullPtr | Some v \<Rightarrow> InResult r v))"

fun dangling :: "dbstate \<Rightarrow> dbptr \<Rightarrow> bool" where
  "dangling s (InResult r v) = (r \<notin> set (live_results s))"
| "dangling s _ = False"


section \<open>The functions of the file\<close>

definition success :: "nat \<Rightarrow> nat \<Rightarrow> int db" where
  "success conn res = dbbind (PQclear res) (\<lambda>_. dbbind (PQfinish conn) (\<lambda>_. dbret 0))"

definition failInt :: "nat \<Rightarrow> nat \<Rightarrow> int db" where
  "failInt conn res = dbbind (PQclear res) (\<lambda>_. dbbind (PQfinish conn) (\<lambda>_. dbret (- 1)))"

definition failChar :: "nat \<Rightarrow> nat \<Rightarrow> dbptr db" where
  "failChar conn res = dbbind (PQclear res) (\<lambda>_. dbbind (PQfinish conn) (\<lambda>_. dbret (Lit ''FAIL'')))"

text \<open>The value of \<^verbatim>\<open>failChar\<close> is dropped and the function goes on.\<close>

definition getVersion :: "libpq \<Rightarrow> dbptr db" where
  "getVersion pq =
     dbbind PQconnectdb (\<lambda>conn.
       if \<not> conn_ok pq conn then dbbind (PQfinish conn) (\<lambda>_. dbret (Lit ''FAIL''))
       else
         dbbind (PQexec pq conn ''SELECT VERSION()'') (\<lambda>res.
         dbbind (use_result res) (\<lambda>r.
         dbbind (if tuples_ok r then dbret (Lit []) else failChar conn res) (\<lambda>_.
         dbbind (PQgetvalue res 0 0) (\<lambda>ver.
         dbbind (PQclear res) (\<lambda>_.
         dbbind (PQfinish conn) (\<lambda>_. dbret ver)))))))"

text \<open>It opens a connection of its own and prints the version it gets.\<close>

definition printDBInfo :: "libpq \<Rightarrow> nat \<Rightarrow> unit db" where
  "printDBInfo pq conn = dbbind (getVersion pq) (\<lambda>ver s.
     seq (if dangling s ver then emit (Fault (UseAfterFree ''ver'')) else ret ()) (ret ((), s)))"

text \<open>The failures return the address of a local array.\<close>

datatype table_list = LocalArray | Rows "dbptr list"

fun get_column :: "nat \<Rightarrow> nat list \<Rightarrow> dbptr list db" where
  "get_column res [] = dbret []"
| "get_column res (i # is) =
     dbbind (PQgetvalue res i 0) (\<lambda>v. dbbind (get_column res is) (\<lambda>vs. dbret (v # vs)))"

definition tables_query :: string where
  "tables_query = ''SELECT table_name FROM information_schema.tables WHERE table_schema = '' @
     [CHR 0x27] @ ''public'' @ [CHR 0x27]"

definition getTables :: "libpq \<Rightarrow> table_list db" where
  "getTables pq =
     dbbind PQconnectdb (\<lambda>conn.
       if \<not> conn_ok pq conn then dbbind (PQfinish conn) (\<lambda>_. dbret LocalArray)
       else
         dbbind (PQexec pq conn tables_query) (\<lambda>res.
         dbbind (use_result res) (\<lambda>r.
           if \<not> tuples_ok r then dbbind (PQclear res) (\<lambda>_. dbbind (PQfinish conn) (\<lambda>_. dbret LocalArray))
           else
             dbbind (get_column res [0..<length (rows r)]) (\<lambda>vs.
             dbbind (PQclear res) (\<lambda>_. dbbind (PQfinish conn) (\<lambda>_. dbret (Rows vs)))))))"

text \<open>
  A \<^verbatim>\<open>UserRow\<close> has two pointers, 16 bytes; the array is allocated with \<^verbatim>\<open>sizeof(UserRow*)\<close>, 8 bytes, for
  each row.
\<close>

definition put_row :: "nat \<Rightarrow> nat \<Rightarrow> unit run" where
  "put_row n i = seq (guard_bounds ''rows'' (8 * n) (16 * i + 7)) (guard_bounds ''rows'' (8 * n) (16 * i + 15))"

fun get_rows :: "nat \<Rightarrow> nat \<Rightarrow> nat list \<Rightarrow> (dbptr \<times> dbptr) list db" where
  "get_rows n res [] = dbret []"
| "get_rows n res (i # is) =
     dbbind (PQgetvalue res i 0) (\<lambda>u. dbbind (PQgetvalue res i 1) (\<lambda>p.
     dbbind (dblift (put_row n i)) (\<lambda>_. dbbind (get_rows n res is) (\<lambda>vs. dbret ((u, p) # vs)))))"

definition getTableRows :: "libpq \<Rightarrow> (dbptr \<times> dbptr) list db" where
  "getTableRows pq =
     dbbind PQconnectdb (\<lambda>conn.
       if \<not> conn_ok pq conn then
         dbbind (PQfinish conn) (\<lambda>_. dbbind (dblift (put_row 1 0)) (\<lambda>_. dbret [(Lit ''FAIL'', Lit ''FAIL'')]))
       else
         dbbind (PQexec pq conn ''SELECT * FROM Users'') (\<lambda>res.
         dbbind (use_result res) (\<lambda>r.
           if \<not> tuples_ok r then
             dbbind (PQclear res) (\<lambda>_. dbbind (PQfinish conn) (\<lambda>_.
             dbbind (dblift (put_row 1 0)) (\<lambda>_. dbret [(Lit ''FAIL'', Lit ''FAIL'')])))
           else
             dbbind (get_rows (length (rows r)) res [0..<length (rows r)]) (\<lambda>vs.
             dbbind (PQclear res) (\<lambda>_. dbret vs)))))"

definition quoted :: "string \<Rightarrow> string" where
  "quoted s = [CHR 0x27] @ s @ [CHR 0x27]"

definition create_statements :: "string list" where
  "create_statements =
     [''DROP TABLE IF EXISTS Users'',
      ''CREATE TABLE Users(username VARCHAR(20) PRIMARY KEY,password VARCHAR(45))'',
      ''INSERT INTO Users (username,password) VALUES ('' @ quoted ''foo'' @ '','' @ quoted ''bar'' @ '')'',
      ''INSERT INTO Users (username,password) VALUES ('' @ quoted ''foofoo'' @ '','' @ quoted ''extrabar'' @ '')'',
      ''INSERT INTO Users (username,password) VALUES ('' @ quoted ''TheFooestF00'' @ '','' @ quoted ''H1gh3stBar'' @ '')'']"

text \<open>The five statements have the same shape: execute, return \<^verbatim>\<open>failInt\<close> unless the command succeeded, clear.\<close>

fun run_statements :: "libpq \<Rightarrow> nat \<Rightarrow> string list \<Rightarrow> int db" where
  "run_statements pq conn [] = dbbind (PQfinish conn) (\<lambda>_. dbret 0)"
| "run_statements pq conn (q # qs) =
     dbbind (PQexec pq conn q) (\<lambda>res.
     dbbind (use_result res) (\<lambda>r.
       if \<not> command_ok r then failInt conn res
       else dbbind (PQclear res) (\<lambda>_. run_statements pq conn qs)))"

text \<open>The connection made by the initialiser of \<^verbatim>\<open>conn\<close> is overwritten by a second one.\<close>

definition createTable :: "libpq \<Rightarrow> int db" where
  "createTable pq =
     dbbind PQconnectdb (\<lambda>conn0.
     dbbind PQconnectdb (\<lambda>conn.
       if \<not> conn_ok pq conn then dbbind (PQfinish conn) (\<lambda>_. dbret (- 1))
       else dbbind (printDBInfo pq conn) (\<lambda>_. run_statements pq conn create_statements)))"

definition auth_statement :: string where
  "auth_statement = ''SELECT password FROM Users WHERE username='' @ [CHR 0x27]"

text \<open>The three \<^verbatim>\<open>strcat\<close> calls into a buffer of \<^verbatim>\<open>query_size\<close> zeroed bytes.\<close>

definition build_query :: "string \<Rightarrow> string run" where
  "build_query user =
     (let query_size = length auth_statement + length user + 3;
          q1 = auth_statement; q2 = q1 @ user; q3 = q2 @ [CHR 0x27] @ '';'' in
      seq (guard_bounds ''query'' query_size (length q1))
      (seq (guard_bounds ''query'' query_size (length q2))
      (seq (guard_bounds ''query'' query_size (length q3)) (ret q3))))"

definition authenticateUser :: "libpq \<Rightarrow> string \<Rightarrow> string \<Rightarrow> int db" where
  "authenticateUser pq user pass =
     dbbind PQconnectdb (\<lambda>conn.
       if \<not> conn_ok pq conn then dbbind (PQfinish conn) (\<lambda>_. dbret (- 1))
       else
         dbbind (dblift (build_query user)) (\<lambda>query.
         dbbind (PQexec pq conn query) (\<lambda>res.
         dbbind (use_result res) (\<lambda>r.
           if \<not> tuples_ok r then failInt conn res
           else
             dbbind (PQgetvalue res 0 0) (\<lambda>pass_check.
               case pass_check of
                 NullPtr \<Rightarrow> dblift (halt (Crash (NullDeref ''pass_check'')))
               | Lit v \<Rightarrow> if strcmp pass v = 0 then success conn res
                   else dbbind (PQclear res) (\<lambda>_. dbbind (PQfinish conn) (\<lambda>_. dbret (- 1)))
               | InResult _ v \<Rightarrow> if strcmp pass v = 0 then success conn res
                   else dbbind (PQclear res) (\<lambda>_. dbbind (PQfinish conn) (\<lambda>_. dbret (- 1))))))))"

section \<open>Lemmas\<close>

named_theorems db_defs \<open>the library calls and the combinators\<close>

lemmas [db_defs] = dbret_def dbbind_def dblift_def PQconnectdb_def PQfinish_def PQexec_def use_result_def PQclear_def
  PQgetvalue_def success_def failInt_def failChar_def

text \<open>Every live handle has been given out.\<close>

definition db_wf :: "dbstate \<Rightarrow> bool" where
  "db_wf s \<longleftrightarrow> (\<forall>c \<in> set (live_conns s). c < next_conn s) \<and> (\<forall>r \<in> set (live_results s). r < length (results s))"

lemma db_wf_fresh: "db_wf s \<Longrightarrow> next_conn s \<notin> set (live_conns s) \<and> length (results s) \<notin> set (live_results s)"
  by (auto simp: db_wf_def)

definition same_live :: "dbstate \<Rightarrow> dbstate \<Rightarrow> bool" where
  "same_live s s' \<longleftrightarrow> live_conns s' = live_conns s \<and> live_results s' = live_results s \<and>
     next_conn s \<le> next_conn s' \<and> length (results s) \<le> length (results s')"

lemma same_live_wf: "db_wf s \<Longrightarrow> same_live s s' \<Longrightarrow> db_wf s'"
  by (auto simp: db_wf_def same_live_def)

lemma build_query_fits: "build_query user = ret (auth_statement @ user @ [CHR 0x27] @ '';'')"
  by (simp add: build_query_def Let_def)

lemma getVersion_run:
  assumes "db_wf s"
  shows "\<exists>l p s'. getVersion pq s = (l, Inr (p, s')) \<and> same_live s s'"
  using db_wf_fresh [OF assms]
  by (simp add: getVersion_def db_defs same_live_def seq_emit bind_pair) (simp add: ret_def)

lemma printDBInfo_run:
  assumes "db_wf s"
  shows "\<exists>l s'. printDBInfo pq c s = (l, Inr ((), s')) \<and> same_live s s'"
proof -
  from getVersion_run [OF assms] obtain l p s' where "getVersion pq s = (l, Inr (p, s'))" "same_live s s'" by blast
  then show ?thesis by (simp add: printDBInfo_def dbbind_def dbret_def bind_pair seq_emit)
qed

lemma run_statements_run:
  assumes "db_wf s" "live_conns s = conn # L"
  shows "\<exists>k s'. run_statements pq conn qs s =
      (map Call (take k qs), Inr (if \<forall>i < length qs. command_ok (exec pq (length (results s) + i) (qs ! i)) then 0 else - 1, s')) \<and>
    live_conns s' = L \<and> live_results s' = live_results s \<and>
    ((\<forall>i < length qs. command_ok (exec pq (length (results s) + i) (qs ! i))) \<longrightarrow> k = length qs)"
  using assms
proof (induction qs arbitrary: s)
  case Nil
  then show ?case by (simp add: db_defs) (simp add: ret_def)
next
  case (Cons q qs)
  let ?n = "length (results s)"
  let ?s = "s\<lparr>results := results s @ [exec pq ?n q]\<rparr>"
  show ?case
  proof (cases "command_ok (exec pq ?n q)")
    case True
    have "db_wf ?s" "live_conns ?s = conn # L" using Cons.prems by (auto simp: db_wf_def)
    from Cons.IH [OF this] obtain k s' where IH:
      "run_statements pq conn qs ?s = (map Call (take k qs),
         Inr (if \<forall>i < length qs. command_ok (exec pq (?n + Suc i) (qs ! i)) then 0 else - 1, s'))"
      "live_conns s' = L" "live_results s' = live_results s"
      "(\<forall>i < length qs. command_ok (exec pq (?n + Suc i) (qs ! i))) \<longrightarrow> k = length qs" by auto
    have all: "(\<forall>i < length (q # qs). command_ok (exec pq (?n + i) ((q # qs) ! i))) \<longleftrightarrow>
        (\<forall>i < length qs. command_ok (exec pq (?n + Suc i) (qs ! i)))"
      using True by (auto simp: less_Suc_eq_0_disj)
    have "run_statements pq conn (q # qs) s = (Call q # map Call (take k qs),
         Inr (if \<forall>i < length qs. command_ok (exec pq (?n + Suc i) (qs ! i)) then 0 else - 1, s'))"
      using IH(1) True Cons.prems by (simp add: db_defs seq_emit bind_pair)
    with IH all show ?thesis by (intro exI [of _ "Suc k"] exI [of _ s']) simp
  next
    case False
    then have all: "\<not> (\<forall>i < length (q # qs). command_ok (exec pq (?n + i) ((q # qs) ! i)))" by force
    have "run_statements pq conn (q # qs) s = ([Call q], Inr (- 1, ?s\<lparr>live_conns := L\<rparr>))"
      using False Cons.prems by (simp add: db_defs seq_emit bind_pair)
    with all Cons.prems show ?thesis
      by (intro exI [of _ 1] exI [of _ "?s\<lparr>live_conns := L\<rparr>"]) (auto simp del: run_statements.simps)
  qed
qed

lemma put_row_run: "snd (put_row n i) = Inr ()"
  by (simp add: put_row_def guard_bounds_def seq_emit) (simp add: emit_def)

lemma get_rows_run:
  assumes "r \<in> set (live_results s)" "\<forall>i \<in> set is. i < length (rows (results s ! r)) \<and> 2 \<le> length (rows (results s ! r) ! i)"
  shows "get_rows n r is s = (concat (map (\<lambda>i. fst (put_row n i)) is),
    Inr (map (\<lambda>i. (InResult r (rows (results s ! r) ! i ! 0), InResult r (rows (results s ! r) ! i ! 1))) is, s))"
  using assms(2)
proof (induction "is")
  case (Cons i js)
  then have i: "i < length (rows (results s ! r))" "0 < length (rows (results s ! r) ! i)"
    "Suc 0 < length (rows (results s ! r) ! i)" by auto
  obtain l where l: "put_row n i = (l, Inr ())" using put_row_run by (metis prod.collapse)
  with Cons i assms(1) show ?case by (simp add: db_defs bind_pair)
qed (simp add: db_defs ret_def)

lemma authenticateUser_run:
  assumes "db_wf s" "conn_ok pq (next_conn s)" "is_cstring pass"
    "q = auth_statement @ user @ [CHR 0x27] @ '';''" "r = exec pq (length (results s)) q"
    "tuples_ok r \<longrightarrow> (\<exists>pw cols more. rows r = (pw # cols) # more \<and> is_cstring pw)"
  shows "\<exists>s'. authenticateUser pq user pass s =
      ([Call q], Inr (if tuples_ok r \<and> rows r ! 0 ! 0 = pass then 0 else - 1, s')) \<and> same_live s s'"
proof (cases "tuples_ok r")
  case True
  with assms(6) obtain pw cols more where pw: "rows r = (pw # cols) # more" "is_cstring pw" by blast
  have "strcmp pass pw = 0 \<longleftrightarrow> pw = pass" using strcmp_eq_0 [OF assms(3) pw(2)] by auto
  with True pw(1) assms(2,4,5) show ?thesis
    by (simp add: authenticateUser_def build_query_fits db_defs same_live_def seq_emit bind_pair)
next
  case False
  with assms(2,4,5) show ?thesis
    by (simp add: authenticateUser_def build_query_fits db_defs same_live_def seq_emit bind_pair)
qed

lemma createTable_run:
  assumes "db_wf s" "conn_ok pq (next_conn s + 1)"
  shows "\<exists>l l' n s'. createTable pq s = (l @ l', Inr
      (if \<forall>i < length create_statements. command_ok (exec pq (n + i) (create_statements ! i)) then 0 else - 1, s')) \<and>
    prefix l' (map Call create_statements) \<and>
    ((\<forall>i < length create_statements. command_ok (exec pq (n + i) (create_statements ! i))) \<longrightarrow>
       l' = map Call create_statements) \<and>
    live_conns s' = next_conn s # live_conns s \<and> live_results s' = live_results s"
proof -
  let ?c = "next_conn s" let ?s2 = "s\<lparr>next_conn := ?c + 2, live_conns := (?c + 1) # ?c # live_conns s\<rparr>"
  have "db_wf ?s2" using assms(1) by (auto simp: db_wf_def)
  from printDBInfo_run [OF this] obtain l s3 where
    p: "printDBInfo pq (?c + 1) ?s2 = (l, Inr ((), s3))" "same_live ?s2 s3" by blast
  have s3: "db_wf s3" "live_conns s3 = (?c + 1) # ?c # live_conns s" "live_results s3 = live_results s"
    using same_live_wf [OF \<open>db_wf ?s2\<close> p(2)] p(2) by (simp_all add: same_live_def)
  from run_statements_run [OF s3(1,2), of pq create_statements] obtain k s' where
    r: "run_statements pq (?c + 1) create_statements s3 = (map Call (take k create_statements), Inr
      (if \<forall>i < length create_statements. command_ok (exec pq (length (results s3) + i) (create_statements ! i)) then 0 else - 1, s'))"
    "live_conns s' = ?c # live_conns s" "live_results s' = live_results s3"
    "(\<forall>i < length create_statements. command_ok (exec pq (length (results s3) + i) (create_statements ! i))) \<longrightarrow>
      k = length create_statements" by blast
  have "createTable pq s = (l @ map Call (take k create_statements), Inr
      (if \<forall>i < length create_statements. command_ok (exec pq (length (results s3) + i) (create_statements ! i)) then 0 else - 1, s'))"
    using assms(2) p(1) r(1)
    by (simp add: createTable_def dbbind_def PQconnectdb_def bind_pair del: run_statements.simps)
  moreover have "prefix (map Call (take k create_statements)) (map Call create_statements)"
    by (simp add: take_map [symmetric] take_is_prefix)
  ultimately show ?thesis
    using r(2-4) s3(3)
    by (intro exI [of _ l] exI [of _ "map Call (take k create_statements)"] exI [of _ "length (results s3)"] exI [of _ s']) simp
qed

text \<open>
  The type invariant of the library's state: every operation keeps it, and so does everything that is composed of
  them.
\<close>

named_theorems db_intros \<open>the operations that keep the invariant of the state\<close>

definition db_keeps :: "'a db \<Rightarrow> bool" where
  "db_keeps m \<longleftrightarrow> (\<forall>s x s'. db_wf s \<longrightarrow> snd (m s) = Inr (x, s') \<longrightarrow> db_wf s')"

lemma db_keepsD: "db_keeps m \<Longrightarrow> db_wf s \<Longrightarrow> m s = (l, Inr (x, s')) \<Longrightarrow> db_wf s'"
  by (auto simp: db_keeps_def)

lemma db_keeps_ret [db_intros]: "db_keeps (dbret x)"
  by (simp add: db_keeps_def dbret_def)

lemma db_keeps_bind [db_intros]: "db_keeps m \<Longrightarrow> (\<And>x. db_keeps (k x)) \<Longrightarrow> db_keeps (dbbind m k)"
  unfolding db_keeps_def
proof (intro allI impI)
  fix s y s''
  assume m: "\<forall>s x s'. db_wf s \<longrightarrow> snd (m s) = Inr (x, s') \<longrightarrow> db_wf s'"
    and k: "\<And>x. \<forall>s y s'. db_wf s \<longrightarrow> snd (k x s) = Inr (y, s') \<longrightarrow> db_wf s'"
    and s: "db_wf s" "snd (dbbind m k s) = Inr (y, s'')"
  from s(2) obtain x s' where x: "snd (m s) = Inr (x, s')" "snd (k x s') = Inr (y, s'')"
    by (auto simp: dbbind_def bind_def split: sum.splits)
  with m s(1) have "db_wf s'" by blast
  with k x(2) show "db_wf s''" by blast
qed

lemma db_keeps_if [db_intros]: "db_keeps m \<Longrightarrow> db_keeps n \<Longrightarrow> db_keeps (if b then m else n)"
  by simp

lemma db_keeps_lift [db_intros]: "db_keeps (dblift m)"
  by (auto simp: db_keeps_def dblift_def bind_def split: sum.splits)

lemma db_keeps_library [db_intros]:
  "db_keeps PQconnectdb" "db_keeps (PQfinish c)" "db_keeps (PQexec pq c q)" "db_keeps (use_result r)"
  "db_keeps (PQclear r)" "db_keeps (PQgetvalue r i j)"
  by (auto simp: db_keeps_def db_wf_def PQconnectdb_def PQfinish_def PQexec_def use_result_def PQclear_def PQgetvalue_def
      dbbind_def dbret_def run_simps split: if_splits dest!: set_remove1_subset [THEN subsetD])

lemma db_keeps_ptr_case [db_intros]:
  "(\<And>v. db_keeps (f v)) \<Longrightarrow> (\<And>n v. db_keeps (g n v)) \<Longrightarrow> db_keeps h \<Longrightarrow>
     db_keeps (case p of Lit v \<Rightarrow> f v | InResult n v \<Rightarrow> g n v | NullPtr \<Rightarrow> h)"
  by (cases p) simp_all

lemma db_keeps_ends [db_intros]: "db_keeps (success c r)" "db_keeps (failInt c r)" "db_keeps (failChar c r)"
  unfolding success_def failInt_def failChar_def by (intro db_intros)+

lemma db_keeps_functions [db_intros]:
  "db_keeps (getVersion pq)" "db_keeps (get_column r is)" "db_keeps (get_rows n r is)" "db_keeps (run_statements pq c qs)"
proof -
  show "db_keeps (getVersion pq)" unfolding getVersion_def by (intro db_intros)
  show "db_keeps (get_column r is)" by (induction "is") (simp_all, (intro db_intros; assumption)+)
  show "db_keeps (get_rows n r is)" by (induction "is") (simp_all, (intro db_intros; assumption)+)
  show "db_keeps (run_statements pq c qs)"
    by (induction qs) (simp_all, (intro db_intros; assumption)+)
qed

lemma db_keeps_print [db_intros]: "db_keeps (printDBInfo pq c)"
proof -
  have "db_keeps (\<lambda>s. seq (if dangling s v then emit (Fault (UseAfterFree ''ver'')) else ret ()) (ret ((), s)))" for v
    by (simp add: db_keeps_def seq_emit)
  then show ?thesis unfolding printDBInfo_def by (intro db_intros)
qed


section \<open>Properties\<close>


definition sample_pq :: libpq where
  "sample_pq = \<lparr>conn_ok = (\<lambda>_. True),
     exec = (\<lambda>_ _. \<lparr>command_ok = True, tuples_ok = True, rows = [[''bar'']], outside = None\<rparr>)\<rparr>"


text \<open>An unknown user. When the query succeeds with no row and the library answers NULL for the missing value, the
  comparison of the passwords dereferences NULL: the function does not return -1 as its comment says, it crashes,
  and the connection is not closed.\<close>

theorem authenticateUser_unknown_user:
  assumes "conn_ok pq (next_conn s)" "q = auth_statement @ user @ [CHR 0x27] @ '';''"
    "tuples_ok (exec pq (length (results s)) q)" "rows (exec pq (length (results s)) q) = []"
    "outside (exec pq (length (results s)) q) = None"
  shows "authenticateUser pq user pass s = ([Call q], Inl (Crash (NullDeref ''pass_check'')))"
  using assms by (simp add: authenticateUser_def build_query_fits db_defs seq_emit bind_pair)

definition empty_pq :: libpq where
  "empty_pq = \<lparr>conn_ok = (\<lambda>_. True),
     exec = (\<lambda>_ _. \<lparr>command_ok = True, tuples_ok = True, rows = [], outside = None\<rparr>)\<rparr>"

theorem authenticateUser_unknown_user_witness:
  "snd (authenticateUser empty_pq ''nobody'' ''x'' db_start) = Inl (Crash (NullDeref ''pass_check''))"
  using authenticateUser_unknown_user [of empty_pq db_start "auth_statement @ ''nobody'' @ [CHR 0x27] @ '';''" "''nobody''" "''x''"]
  by (simp add: empty_pq_def db_start_def)

text \<open>\<^verbatim>\<open>createTable\<close> returns 0 exactly when all five statements succeed, in which case they have been sent in order; whatever
  happens it returns with no result left over, and with exactly one connection more than before: the first of
  its two connections is never closed.\<close>

theorem createTable_runs:
  assumes "db_wf s" "conn_ok pq (next_conn s + 1)"
  shows "\<exists>l l' n s'. createTable pq s = (l @ l', Inr
      (if \<forall>i < length create_statements. command_ok (exec pq (n + i) (create_statements ! i)) then 0 else - 1, s')) \<and>
    prefix l' (map Call create_statements) \<and>
    ((\<forall>i < length create_statements. command_ok (exec pq (n + i) (create_statements ! i))) \<longrightarrow>
       l' = map Call create_statements) \<and>
    live_conns s' = next_conn s # live_conns s \<and> live_results s' = live_results s"
  by (rule createTable_run [OF assms])

theorem createTable_runs_witness:
  "\<exists>l s'. createTable sample_pq db_start = (l @ map Call create_statements, Inr (0, s')) \<and>
     live_conns s' = [0] \<and> live_results s' = []"
  using createTable_runs [of db_start sample_pq] by (auto simp: db_wf_def db_start_def sample_pq_def)

text \<open>\<^verbatim>\<open>getVersion\<close> releases what it opened, but the string it returns is inside the result it has just cleared: the pointer
  dangles. When the query fails it does not return ``FAIL'': the cleaned-up result and connection are used and
  released a second time.\<close>

theorem getVersion_dangles:
  assumes "db_wf s" "conn_ok pq (next_conn s)" "r = exec pq (length (results s)) ''SELECT VERSION()''"
    "rows r = (v # cols) # rest"
  shows "\<exists>s'. snd (getVersion pq s) = Inr (InResult (length (results s)) v, s') \<and> same_live s s' \<and>
    dangling s' (InResult (length (results s)) v) \<and>
    faults (getVersion pq s) =
      (if tuples_ok r then [] else map Fault [UseAfterFree ''res'', UseAfterFree ''res'', UseAfterFree ''conn''])"
  using assms db_wf_fresh [OF assms(1)]
  by (simp add: getVersion_def db_defs same_live_def seq_emit bind_pair faults_def)

theorem getVersion_dangles_witness:
  "\<exists>s'. snd (getVersion sample_pq db_start) = Inr (InResult 0 ''bar'', s') \<and> dangling s' (InResult 0 ''bar'')"
  using getVersion_dangles [of db_start sample_pq "exec sample_pq 0 ''SELECT VERSION()''" "''bar''" "[]" "[]"]
  by (auto simp: sample_pq_def db_start_def db_wf_def)

text \<open>\<^verbatim>\<open>getTableRows\<close> on a table with at least one row: the array is allocated for pointers and filled with pairs of
  pointers, so it is always overrun; every string it returns dangles; and the connection is left open.\<close>

theorem getTableRows_overruns:
  assumes "db_wf s" "conn_ok pq (next_conn s)" "r = exec pq (length (results s)) ''SELECT * FROM Users''"
    "tuples_ok r" "rows r \<noteq> []" "\<forall>row \<in> set (rows r). 2 \<le> length row"
  shows "\<exists>s' vs. snd (getTableRows pq s) = Inr (vs, s') \<and> faults (getTableRows pq s) \<noteq> [] \<and>
    length vs = length (rows r) \<and> (\<forall>(u, p) \<in> set vs. dangling s' u \<and> dangling s' p) \<and>
    live_conns s' = next_conn s # live_conns s \<and> live_results s' = live_results s"
proof -
  let ?n = "length (rows r)" and ?k = "length (results s)"
  let ?s1 = "s\<lparr>next_conn := Suc (next_conn s), live_conns := next_conn s # live_conns s, results := results s @ [r],
    live_results := ?k # live_results s\<rparr>"
  let ?vs = "map (\<lambda>i. (InResult ?k (rows r ! i ! 0), InResult ?k (rows r ! i ! 1))) [0..<?n]"
  let ?l = "concat (map (\<lambda>i. fst (put_row ?n i)) [0..<?n])"
  have g: "get_rows ?n ?k [0..<?n] ?s1 = (?l, Inr (?vs, ?s1))"
    using get_rows_run [of ?k ?s1 "[0..<?n]" ?n] assms(6) by simp
  have "getTableRows pq s =
      (Call ''SELECT * FROM Users'' # ?l, Inr (?vs, ?s1\<lparr>live_results := live_results s\<rparr>))"
    using assms(2,4) g by (simp add: getTableRows_def db_defs assms(3) seq_emit bind_pair)
  moreover have "Fault (OutOfBounds ''rows'') \<in> set (fst (put_row ?n (?n - 1)))"
    using assms(5) by (cases "rows r") (auto simp: put_row_def guard_bounds_def seq_def bind_def emit_def)
  then have "Fault (OutOfBounds ''rows'') \<in> set ?l"
    using assms(5) by (auto intro!: bexI [of _ "?n - 1"])
  then have "filter is_fault ?l \<noteq> []" by (force simp: filter_empty_conv)
  moreover have "?k \<notin> set (live_results s)" using db_wf_fresh [OF assms(1)] by simp
  ultimately show ?thesis by (auto simp: faults_def)
qed

definition users_pq :: libpq where
  "users_pq = \<lparr>conn_ok = (\<lambda>_. True),
     exec = (\<lambda>_ _. \<lparr>command_ok = True, tuples_ok = True, rows = [[''foo'', ''bar'']], outside = None\<rparr>)\<rparr>"

theorem getTableRows_overruns_witness:
  "faults (getTableRows users_pq db_start) \<noteq> []"
  using getTableRows_overruns [of db_start users_pq "exec users_pq 0 ''SELECT * FROM Users''"]
  by (auto simp: users_pq_def db_start_def db_wf_def)



section \<open>What the query means\<close>

text \<open>
  A string literal as the database server reads it, from the character after its opening quote: it ends at the first
  quote that is not doubled, and a doubled quote stands for one. The result is the content and the rest of the statement.
\<close>

abbreviation quote :: char where
  "quote \<equiv> CHR 0x27"

fun scan_literal :: "string \<Rightarrow> (string \<times> string) option" where
  "scan_literal [] = None"
| "scan_literal [c] = (if c = quote then Some ([], []) else None)"
| "scan_literal (c # d # s) =
     (if c \<noteq> quote then map_option (apfst (Cons c)) (scan_literal (d # s))
      else if d = quote then map_option (apfst (Cons c)) (scan_literal s)
      else Some ([], d # s))"

lemma scan_literal_plain: "quote \<notin> set u \<Longrightarrow> d \<noteq> quote \<Longrightarrow> scan_literal (u @ quote # d # s) = Some (u, d # s)"
proof (induction u)
  case (Cons c u)
  then show ?case by (cases u) auto
qed simp

text \<open>A literal takes at least as many characters as it has content; when it takes no more, nothing in it was doubled.\<close>

lemma scan_literal_length:
  "scan_literal s = Some (c, r) \<Longrightarrow>
     length c + 1 + length r \<le> length s \<and> (length s = length c + 1 + length r \<longrightarrow> quote \<notin> set c)"
proof (induction s arbitrary: c rule: scan_literal.induct)
  case (3 a d s)
  show ?case
  proof (cases "a \<noteq> quote")
    case True
    with "3.prems" obtain c' where "scan_literal (d # s) = Some (c', r)" "c = a # c'" by auto
    with "3.IH"(1) [OF True] True show ?thesis by auto
  next
    case False
    show ?thesis
    proof (cases "d = quote")
      case True
      with False "3.prems" obtain c' where "scan_literal s = Some (c', r)" "c = a # c'" by auto
      with "3.IH"(2) [of c'] False True show ?thesis by auto
    next
      case False
      with \<open>\<not> a \<noteq> quote\<close> "3.prems" show ?thesis by auto
    qed
  qed
qed (auto split: if_splits)

text \<open>C14. The statement of \<^verbatim>\<open>authenticateUser\<close> is the intended one exactly for the user names without a quote: only then does the
  literal of the statement read back as the user name and end where the code closes it. Any quote in the name changes the
  statement, since the name is pasted in as it is.\<close>

theorem build_query_literal:
  "\<exists>lit. build_query user = ret (auth_statement @ lit) \<and>
     (scan_literal lit = Some (user, '';'') \<longleftrightarrow> quote \<notin> set user)"
proof -
  have "quote \<notin> set user" if "scan_literal (user @ [quote] @ '';'') = Some (user, '';'')"
    using scan_literal_length [OF that] by simp
  then have "scan_literal (user @ [quote] @ '';'') = Some (user, '';'') \<longleftrightarrow> quote \<notin> set user"
    using scan_literal_plain [of user "CHR '';''" "[]"] by auto
  then show ?thesis by (intro exI [of _ "user @ [quote] @ '';''"]) (simp add: build_query_fits)
qed

text \<open>An account made up by the caller. The user name \<open>' UNION SELECT 'p\<close> turns the statement into one whose answer does not
  depend on the table: when no user has the empty name, the server answers it with the single row \<open>p\<close>, and then the
  caller is authenticated with the password \<open>p\<close> of its choice.\<close>

definition made_up_user :: "string \<Rightarrow> string" where
  "made_up_user p = [quote] @ '' UNION SELECT '' @ [quote] @ p"

theorem authenticateUser_made_up:
  assumes "db_wf s" "conn_ok pq (next_conn s)" "is_cstring p"
    "exec pq (length (results s)) (auth_statement @ [quote] @ '' UNION SELECT '' @ [quote] @ p @ [quote] @ '';'') =
      \<lparr>command_ok = False, tuples_ok = True, rows = [[p]], outside = None\<rparr>"
  shows "\<exists>l s'. authenticateUser pq (made_up_user p) p s = (l, Inr (0, s'))"
  using authenticateUser_run [OF assms(1-3) refl refl, of "made_up_user p"] assms(3,4) by (auto simp: made_up_user_def)

theorem authenticateUser_made_up_witness:
  "\<exists>l s'. authenticateUser \<lparr>conn_ok = (\<lambda>_. True), exec = (\<lambda>_ _. \<lparr>command_ok = False, tuples_ok = True, rows = [[''x'']], outside = None\<rparr>)\<rparr>
     (made_up_user ''x'') ''x'' db_start = (l, Inr (0, s'))"
  using authenticateUser_made_up [of db_start "\<lparr>conn_ok = (\<lambda>_. True),
     exec = (\<lambda>_ _. \<lparr>command_ok = False, tuples_ok = True, rows = [[''x'']], outside = None\<rparr>)\<rparr>" "''x''"]
  by (simp add: db_start_def db_wf_def is_cstring_def)

end
