(* ===== verification/Client.thy ===== *)
theory Client
  imports C_Prelude Response Ssl_IO
begin

text \<open>
  \<^verbatim>\<open>src/client/client_v2.c\<close> and \<^verbatim>\<open>src/client/client.h\<close>: the command line client, in its Linux and its Windows build. It computes the size of
  the request, allocates that many bytes, formats the request into them, connects, sets TLS up and sends.
  What the resolver, the sockets and OpenSSL answer and what the allocated memory holds before it is
  written are parameters. Sizes are natural numbers: the arguments of a process are far shorter than \<open>2 ^ 31\<close>.
\<close>

section \<open>Building the request\<close>

definition get_format :: string where
  "get_format = ''%s %s%s%s HTTP/1.0'' @ crlf @ ''Host: %s'' @ crlf"

definition plain_format :: string where
  "plain_format = ''%s %s HTTP/1.0'' @ crlf @ ''Host: %s'' @ crlf"

definition length_format :: string where
  "length_format = ''Content-Length: %d'' @ crlf"

definition client_host :: "string list \<Rightarrow> string" where
  "client_host argv = (if 0 < length (argv ! 1) then argv ! 1 else ''localhost'')"

definition client_path :: "string list \<Rightarrow> string" where
  "client_path argv = (if 0 < length (argv ! 4) then argv ! 4 else ''/'')"

text \<open>The port is the number in \<^verbatim>\<open>argv[2]\<close>, or 80 when that is not positive; \<^verbatim>\<open>htons\<close> takes a 16 bit number.\<close>

definition client_port :: "string list \<Rightarrow> int" where
  "client_port argv = (if 0 < atoi (argv ! 2) then atoi (argv ! 2) else 80)"

definition sin_port :: "int \<Rightarrow> 16 word" where
  "sin_port port = word_of_int port"

text \<open>\<^verbatim>\<open>*message_size\<close> before the allocation.\<close>

definition message_size :: "string list \<Rightarrow> nat" where
  "message_size argv =
     (let argc = length argv; path = client_path argv;
          headers = sum_list (map (\<lambda>h. length h + length crlf) (drop 6 argv)) in
      if strcmp (argv ! 3) ''GET'' = 0 then
        length get_format + length (argv ! 3) + length path +
        (if 5 < argc then length (argv ! 5) else 0) + headers + length crlf
      else
        length plain_format + length (argv ! 3) + length path + headers +
        (if 5 < argc then length length_format + 10 else 0) + length crlf +
        (if 5 < argc then length (argv ! 5) else 0))"

text \<open>Writing \<open>s\<close> and a NUL at the end of what the buffer of \<open>cap\<close> bytes holds (\<^verbatim>\<open>strcat\<close>, \<^verbatim>\<open>sprintf\<close>).\<close>

definition put_str :: "nat \<Rightarrow> string \<Rightarrow> string \<Rightarrow> string run" where
  "put_str cap cur s = seq (guard_bounds ''message'' cap (length (cur @ s))) (ret (cur @ s))"

definition put_fmt :: "nat \<Rightarrow> string \<Rightarrow> string \<Rightarrow> farg list \<Rightarrow> string run" where
  "put_fmt cap cur fmt args =
     (case cformat fmt args of None \<Rightarrow> halt (Crash (BadPointer ''va_arg'')) | Some s \<Rightarrow> put_str cap cur s)"

fun put_headers :: "nat \<Rightarrow> string \<Rightarrow> string list \<Rightarrow> string run" where
  "put_headers cap cur [] = ret cur"
| "put_headers cap cur (h # hs) =
     bind (put_str cap cur h) (\<lambda>c1. bind (put_str cap c1 crlf) (\<lambda>c2. put_headers cap c2 hs))"

definition build_message :: "string list \<Rightarrow> string run" where
  "build_message argv =
     (let argc = length argv; cap = message_size argv; path = client_path argv; host = client_host argv in
      if strcmp (argv ! 3) ''GET'' = 0 then
        if 5 < argc \<and> CHR '' '' \<in> set (argv ! 5) then halt (Exit 0)
        else
          bind
            (if 5 < argc then
               put_fmt cap [] get_format
                 [FStr (if 0 < length (argv ! 3) then argv ! 3 else ''GET''), FStr path,
                  FStr (if 0 < length (argv ! 5) then ''?'' else []),
                  FStr (if 0 < length (argv ! 5) then argv ! 5 else []), FStr host]
             else
               put_fmt cap [] plain_format
                 [FStr (if 0 < length (argv ! 3) then argv ! 3 else ''GET''), FStr path, FStr host]) (\<lambda>m1.
          bind (put_headers cap m1 (drop 6 argv)) (\<lambda>m2. put_str cap m2 crlf))
      else
        bind (put_fmt cap [] plain_format
               [FStr (if 0 < length (argv ! 3) then argv ! 3 else ''POST''), FStr path, FStr host]) (\<lambda>m1.
        bind (put_headers cap m1 (drop 6 argv)) (\<lambda>m2.
        bind (if 5 < argc then put_fmt cap m2 length_format [FInt (int (length (argv ! 5)))] else ret m2) (\<lambda>m3.
        bind (put_str cap m3 crlf) (\<lambda>m4.
          if 5 < argc then put_str cap m4 (argv ! 5) else ret m4)))))"


section \<open>Connecting\<close>

record client_env =
  host_found :: bool
  sock_fd :: int
  connect_ok :: bool
  client_tls :: ssl_env
  client_writes :: "nat \<Rightarrow> int \<Rightarrow> int"
  client_reads :: "nat \<Rightarrow> int \<times> string"
  old_heap :: "nat \<Rightarrow> char"

text \<open>A socket that does not connect is not closed.\<close>

definition openConnection :: "client_env \<Rightarrow> string \<Rightarrow> int \<Rightarrow> int run" where
  "openConnection e host port =
     seq (emit (Call (''gethostbyname '' @ host)))
     (if \<not> host_found e then ret (- 1)
      else
        seq (emit (Call ''socket''))
        (if sock_fd e < 0 then ret (- 1)
         else
           seq (emit (Call (''connect to port '' @ nat_digits (unat (sin_port port)))))
           (if \<not> connect_ok e then ret (- 1) else ret (sock_fd e))))"

text \<open>What the allocated bytes hold when the request is sent; \<^verbatim>\<open>sendall\<close> is given all \<^verbatim>\<open>*message_size\<close> of them.\<close>

definition message_bytes :: "(nat \<Rightarrow> char) \<Rightarrow> nat \<Rightarrow> string \<Rightarrow> string" where
  "message_bytes heap n msg = take n (msg @ [NUL] @ map heap [length msg + 1..<n])"

definition main_client :: "client_env \<Rightarrow> string list \<Rightarrow> (int \<times> string) run" where
  "main_client e argv =
     (if length argv < 5 then halt (Exit 0)
      else
        bind (build_message argv) (\<lambda>message.
        bind (openConnection e (client_host argv) (client_port argv)) (\<lambda>connect_sock.
        bind (initSSL (client_tls e)) (\<lambda>_.
        bind (configClientSSL (client_tls e) connect_sock) (\<lambda>_.
        bind (sendall (client_writes e) (message_bytes (old_heap e) (message_size argv) message)
               (int (message_size argv))) (\<lambda>(st, _).
          if st < 0 then halt (Exit 0)
          else
            bind (readall (client_reads e)) (\<lambda>(st2, response).
              if st2 < 0 then halt (Exit 0)
              else seq (emit (Close connect_sock)) (ret (0, cstr_of response)))))))))"


text \<open>
  The other branch of the program, compiled on Windows: no TLS, the request is written to the socket as it is. A socket
  that could not be created is used all the same, \<^verbatim>\<open>gethostbyname\<close> is not checked, and after a failed \<^verbatim>\<open>recv\<close>, which
  answers -1, the NUL is stored at index -1 of the buffer and the buffer is printed. A connection or a \<^verbatim>\<open>send\<close> that
  fails makes \<^verbatim>\<open>main\<close> return 1.
\<close>

record win_env =
  wsa_startup :: int
  win_sock :: int
  win_host :: bool
  win_connect :: int
  win_send :: int
  win_recv :: "int \<times> string"
  win_stack :: string

definition main_client_win :: "win_env \<Rightarrow> string list \<Rightarrow> (int \<times> string) run" where
  "main_client_win w argv =
     (if length argv < 5 then halt (Exit 0)
      else
        bind (build_message argv) (\<lambda>message.
          if wsa_startup w \<noteq> 0 then ret (1, [])
          else
            bind (deref ''server'' (if win_host w then Some () else None)) (\<lambda>_.
              if win_connect w < 0 then ret (1, [])
              else if win_send w < 0 then ret (1, [])
              else
                seq (emit (SockWrite (win_sock w) (take (nat (win_send w)) message)))
                (let (received, data) = win_recv w in
                 seq (if received = - 1 then emit (Fault (OutOfBounds ''response'')) else
                        guard_bounds ''response'' (nat SOCK_BUFF_DEF_READ) (nat received))
                 (seq (if received = - 1 then emit (Fault (UninitRead ''response'')) else ret ())
                  (seq (emit (Close (win_sock w)))
                   (ret (0, if received = - 1 then win_stack w else cstr_of (take (nat received) data)))))))))"


section \<open>Lemmas\<close>
definition header_bytes :: "string list \<Rightarrow> string" where
  "header_bytes hs = concat (map (\<lambda>h. h @ crlf) hs)"

lemma snd_put_str [simp]: "snd (put_str cap cur s) = Inr (cur @ s)"
  by (simp add: put_str_def guard_bounds_def seq_emit)

lemma fst_put_str: "fst (put_str cap cur s) = (if length (cur @ s) < cap then [] else [Fault (OutOfBounds ''message'')])"
  by (simp add: put_str_def guard_bounds_def seq_emit)

lemma snd_bind_Inr: "snd m = Inr x \<Longrightarrow> snd (bind m k) = snd (k x)" "snd m = Inr x \<Longrightarrow> fst (bind m k) = fst m @ fst (k x)"
  by (simp_all add: bind_def)

lemma put_headers_run:
  "snd (put_headers cap cur hs) = Inr (cur @ header_bytes hs) \<and>
   (fst (put_headers cap cur hs) = [] \<longleftrightarrow> hs = [] \<or> length (cur @ header_bytes hs) < cap)"
proof (induction hs arbitrary: cur)
  case (Cons h hs)
  have "hs = [] \<Longrightarrow> header_bytes hs = []" by (simp add: header_bytes_def)
  with Cons [of "cur @ h @ crlf"] show ?case
    by (auto simp: snd_bind_Inr fst_put_str header_bytes_def)
qed (simp add: header_bytes_def)

lemma cformat_int: "cformat (CHR ''%'' # CHR ''d'' # q) (FInt i # as) = map_option (append (int_digits i)) (cformat q as)"
  by simp

lemma format_expand:
  "cformat get_format [FStr m, FStr p, FStr a, FStr b, FStr h] =
     Some (m @ '' '' @ p @ a @ b @ '' HTTP/1.0'' @ crlf @ ''Host: '' @ h @ crlf)"
  "cformat plain_format [FStr m, FStr p, FStr h] = Some (m @ '' '' @ p @ '' HTTP/1.0'' @ crlf @ ''Host: '' @ h @ crlf)"
  "cformat length_format [FInt i] = Some (''Content-Length: '' @ int_digits i @ crlf)"
  by (simp_all add: get_format_def plain_format_def length_format_def crlf_def)

lemma format_lengths: "length get_format = 30" "length plain_format = 26" "length length_format = 20" "length crlf = 2"
  by (simp_all add: get_format_def plain_format_def length_format_def crlf_def)

lemma header_bytes_length: "length (header_bytes hs) = sum_list (map (\<lambda>h. length h + length crlf) hs)"
  by (induction hs) (simp_all add: header_bytes_def)

text \<open>The request the client means to send.\<close>

definition get_text :: "string list \<Rightarrow> string" where
  "get_text argv =
     ''GET '' @ client_path argv @
     (if 5 < length argv \<and> argv ! 5 \<noteq> [] then ''?'' @ argv ! 5 else []) @ '' HTTP/1.0'' @ crlf @
     ''Host: '' @ client_host argv @ crlf @ header_bytes (drop 6 argv) @ crlf"

definition other_text :: "string list \<Rightarrow> string" where
  "other_text argv =
     argv ! 3 @ '' '' @ client_path argv @ '' HTTP/1.0'' @ crlf @ ''Host: '' @ client_host argv @ crlf @
     header_bytes (drop 6 argv) @
     (if 5 < length argv then ''Content-Length: '' @ int_digits (int (length (argv ! 5))) @ crlf else []) @ crlf @
     (if 5 < length argv then argv ! 5 else [])"

lemma build_get:
  assumes "argv ! 3 = ''GET''" "5 < length argv \<longrightarrow> CHR '' '' \<notin> set (argv ! 5)"
  shows "snd (build_message argv) = Inr (get_text argv)"
    "fst (build_message argv) = [] \<longleftrightarrow> length (get_text argv) < message_size argv"
proof -
  let ?cap = "message_size argv"
  let ?q = "if 5 < length argv \<and> argv ! 5 \<noteq> [] then ''?'' @ argv ! 5 else []"
  let ?m1 = "''GET '' @ client_path argv @ ?q @ '' HTTP/1.0'' @ crlf @ ''Host: '' @ client_host argv @ crlf"
  have b: "build_message argv =
      bind (put_str ?cap [] ?m1) (\<lambda>m1. bind (put_headers ?cap m1 (drop 6 argv)) (\<lambda>m2. put_str ?cap m2 crlf))"
    using assms by (auto simp: build_message_def Let_def put_fmt_def format_expand)
  note h = put_headers_run [of ?cap ?m1 "drop 6 argv"]
  have h0: "drop 6 argv = [] \<Longrightarrow> header_bytes (drop 6 argv) = []" by (simp add: header_bytes_def)
  show "snd (build_message argv) = Inr (get_text argv)"
    using h by (simp add: b snd_bind_Inr get_text_def)
  have "fst (build_message argv) =
      fst (put_str ?cap [] ?m1) @ fst (put_headers ?cap ?m1 (drop 6 argv)) @
      fst (put_str ?cap (?m1 @ header_bytes (drop 6 argv)) crlf)"
    using h by (simp add: b snd_bind_Inr)
  then show "fst (build_message argv) = [] \<longleftrightarrow> length (get_text argv) < ?cap"
    using h h0 by (auto simp: fst_put_str get_text_def)
qed

lemma build_other:
  assumes "argv ! 3 \<noteq> ''GET''" "argv ! 3 \<noteq> []" "is_cstring (argv ! 3)"
  shows "snd (build_message argv) = Inr (other_text argv)"
    "fst (build_message argv) = [] \<longleftrightarrow> length (other_text argv) < message_size argv"
proof -
  let ?cap = "message_size argv" and ?c = "5 < length argv"
  let ?m1 = "argv ! 3 @ '' '' @ client_path argv @ '' HTTP/1.0'' @ crlf @ ''Host: '' @ client_host argv @ crlf"
  let ?m2 = "?m1 @ header_bytes (drop 6 argv)"
  let ?len = "''Content-Length: '' @ int_digits (int (length (argv ! 5))) @ crlf"
  let ?m3 = "?m2 @ (if ?c then ?len else [])"
  have "strcmp (argv ! 3) ''GET'' \<noteq> 0" using assms by (simp add: strcmp_eq_0 is_cstring_def)
  then have b: "build_message argv =
      bind (put_str ?cap [] ?m1) (\<lambda>m1. bind (put_headers ?cap m1 (drop 6 argv)) (\<lambda>m2.
      bind (if ?c then put_str ?cap m2 ?len else ret m2) (\<lambda>m3.
      bind (put_str ?cap m3 crlf) (\<lambda>m4. if ?c then put_str ?cap m4 (argv ! 5) else ret m4))))"
    using assms(2) by (simp add: build_message_def Let_def put_fmt_def format_expand cong: if_cong)
  note h = put_headers_run [of ?cap ?m1 "drop 6 argv"]
  have h0: "drop 6 argv = [] \<Longrightarrow> header_bytes (drop 6 argv) = []" by (simp add: header_bytes_def)
  show "snd (build_message argv) = Inr (other_text argv)"
    using h by (simp add: b snd_bind_Inr other_text_def)
  have "fst (build_message argv) =
      fst (put_str ?cap [] ?m1) @ fst (put_headers ?cap ?m1 (drop 6 argv)) @
      (if ?c then fst (put_str ?cap ?m2 ?len) else []) @ fst (put_str ?cap ?m3 crlf) @
      (if ?c then fst (put_str ?cap (?m3 @ crlf) (argv ! 5)) else [])"
    using h by (simp add: b snd_bind_Inr)
  then show "fst (build_message argv) = [] \<longleftrightarrow> length (other_text argv) < ?cap"
    using h h0 by (auto simp: fst_put_str other_text_def)
qed

lemma message_bytes_fits:
  assumes "length msg < n" "is_cstring msg"
  shows "length (message_bytes heap n msg) = n" "cstr_of (message_bytes heap n msg) = msg"
proof -
  have "message_bytes heap n msg = msg @ [NUL] @ map heap [length msg + 1..<n]"
    using assms(1) by (simp add: message_bytes_def)
  moreover have "takeWhile (\<lambda>c. c \<noteq> NUL) (msg @ NUL # r) = msg @ takeWhile (\<lambda>c. c \<noteq> NUL) (NUL # r)" for r
    by (rule takeWhile_append2) (use assms(2) in \<open>auto simp: is_cstring_def\<close>)
  ultimately show "length (message_bytes heap n msg) = n" "cstr_of (message_bytes heap n msg) = msg"
    using assms(1) by (simp_all add: cstr_of_def)
qed

section \<open>Properties\<close>

text \<open>C33. Whether the request fits the buffer the client computes for it. The formats are counted with their conversions, but the
  host name is not counted: a GET stays inside the buffer exactly when the host name, and the question mark
  of a query string, take less than ten bytes; any other method exactly when the host name takes less than
  six bytes, or, with a body, when it and the digits of the body's length take less than eighteen.\<close>

theorem build_message_bounds:
  assumes "5 \<le> length argv"
  shows "(argv ! 3 = ''GET'' \<and> (5 < length argv \<longrightarrow> CHR '' '' \<notin> set (argv ! 5)) \<longrightarrow>
      (fst (build_message argv) = [] \<longleftrightarrow>
        length (client_host argv) + (if 5 < length argv \<and> argv ! 5 \<noteq> [] then 1 else 0) < 10)) \<and>
    (argv ! 3 \<noteq> ''GET'' \<and> argv ! 3 \<noteq> [] \<and> is_cstring (argv ! 3) \<longrightarrow>
      (fst (build_message argv) = [] \<longleftrightarrow>
        (if 5 < length argv then length (client_host argv) + length (int_digits (int (length (argv ! 5)))) < 18
         else length (client_host argv) < 6)))"
proof (intro conjI impI)
  assume a: "argv ! 3 = ''GET'' \<and> (5 < length argv \<longrightarrow> CHR '' '' \<notin> set (argv ! 5))"
  then have "strcmp (argv ! 3) ''GET'' = 0" by simp
  then show "fst (build_message argv) = [] \<longleftrightarrow>
      length (client_host argv) + (if 5 < length argv \<and> argv ! 5 \<noteq> [] then 1 else 0) < 10"
    using a by (auto simp: build_get message_size_def Let_def get_text_def format_lengths header_bytes_length)
next
  assume a: "argv ! 3 \<noteq> ''GET'' \<and> argv ! 3 \<noteq> [] \<and> is_cstring (argv ! 3)"
  then have "strcmp (argv ! 3) ''GET'' \<noteq> 0" by (simp add: strcmp_eq_0 is_cstring_def)
  then show "fst (build_message argv) = [] \<longleftrightarrow>
      (if 5 < length argv then length (client_host argv) + length (int_digits (int (length (argv ! 5)))) < 18
       else length (client_host argv) < 6)"
    using a by (auto simp: build_other message_size_def Let_def other_text_def format_lengths header_bytes_length)
qed

theorem build_message_bounds_witness:
  "fst (build_message [''client'', ''h.net'', ''80'', ''GET'', ''/'']) = [] \<and>
   fst (build_message [''client'', ''devopsec.net'', ''80'', ''GET'', ''/'']) \<noteq> []"
  using build_message_bounds [of "[''client'', ''h.net'', ''80'', ''GET'', ''/'']"]
    build_message_bounds [of "[''client'', ''devopsec.net'', ''80'', ''GET'', ''/'']"]
  by (simp add: client_host_def)

text \<open>Building the request has no effect but on memory.\<close>

lemma put_headers_faults: "log_all is_fault (put_headers cap cur hs)"
  by (induction hs arbitrary: cur) (auto simp: put_str_def intro!: log_intros)

lemma build_faults: "log_all is_fault (build_message argv)"
  by (auto simp: build_message_def Let_def put_fmt_def put_str_def put_headers_faults intro!: log_intros split: option.splits)

lemma build_log: "(\<And>f. P (Fault f)) \<Longrightarrow> log_all P (build_message argv)"
  using build_faults [of argv] unfolding log_all_def list_all_iff by (metis is_fault.elims(2))

lemma build_no_data: "log_all no_data (build_message argv)"
  by (rule build_log) simp

lemma openConnection_run:
  obtains l c where "openConnection e host port = (l, Inr c)" "list_all no_data l"
proof -
  have "\<exists>l c. openConnection e host port = (l, Inr c) \<and> list_all no_data l"
    by (simp add: openConnection_def seq_emit)
  with that show thesis by blast
qed

lemma openConnection_no_data: "log_all no_data (openConnection e host port)"
  by (rule openConnection_run [of e host port]) (simp add: log_all_def)

text \<open>C3. The client sends nothing to a server it has not authenticated: unless the trust store could be loaded, the handshake
  succeeded and the certificate is valid for \<open>devopsec.net\<close>, no byte is written to the TLS connection or to the
  socket, whatever the command line, and the run does not return normally.\<close>

theorem main_client_authenticates_first:
  assumes "\<not> (load_verify (client_tls e) = 1 \<and> 0 < handshake (client_tls e) \<and>
    (\<exists>c. peer_cert (client_tls e) = Some c \<and> validate_hostname (Some ''devopsec.net'') (Some c) = MatchFound))"
  shows "log_all no_data (main_client e argv) \<and> snd (main_client e argv) \<noteq> Inr r"
proof
  have fail: "snd (configClientSSL (client_tls e) s) \<noteq> Inr x" for s x
    using assms configClientSSL_Inr [of "client_tls e" s] by (cases x) auto
  show "log_all no_data (main_client e argv)"
    using fail by (auto simp: main_client_def openConnection_no_data build_no_data intro!: log_intros)
  show "snd (main_client e argv) \<noteq> Inr r"
    using fail by (auto simp: main_client_def bind_def split: sum.splits if_splits)
qed

theorem main_client_authenticates_first_witness:
  "log_all no_data (main_client \<lparr>host_found = True, sock_fd = 3, connect_ok = True, client_tls = sample_env,
     client_writes = (\<lambda>k n. n), client_reads = (\<lambda>k. (0, [])), old_heap = (\<lambda>i. NUL)\<rparr>
     [''client'', ''devopsec.net'', ''80'', ''GET'', ''/''])"
  using main_client_authenticates_first [of "\<lparr>host_found = True, sock_fd = 3, connect_ok = True, client_tls = sample_env,
     client_writes = (\<lambda>k n. n), client_reads = (\<lambda>k. (0, [])), old_heap = (\<lambda>i. NUL)\<rparr>"]
  by (simp add: sample_env_def)

text \<open>C34. The port of a connection. A command line with the decimal number of a port makes the client connect to that port, for
  every port from 1 to 65535; a number from 65536 on is reduced modulo 65536 without a word, so that it connects to some other
  port, and 0 stands for 80.\<close>

theorem main_client_connects_to_port:
  assumes "5 \<le> length argv" "argv ! 2 = nat_digits n" "n < 2 ^ 31" "snd (build_message argv) = Inr msg" "host_found e" "0 \<le> sock_fd e"
  shows "Call (''connect to port '' @ nat_digits (if n = 0 then 80 else n mod 65536)) \<in> set (fst (main_client e argv))"
proof -
  have "unat (sin_port (int m)) = m mod 65536" for m by (simp add: sin_port_def unat_of_nat)
  then have "unat (sin_port (client_port argv)) = (if n = 0 then 80 else n mod 65536)"
    using assms(2,3) unat_of_nat [of 80] by (simp add: client_port_def atoi_digits sin_port_def)
  then show ?thesis using assms(1,4-6) by (simp add: main_client_def snd_bind_Inr openConnection_def seq_emit bind_pair)
qed

theorem main_client_connects_to_port_witness:
  "Call (''connect to port '' @ nat_digits 443) \<in> set (fst (main_client \<lparr>host_found = True, sock_fd = 3, connect_ok = True,
     client_tls = sample_env, client_writes = (\<lambda>k n. n), client_reads = (\<lambda>k. (0, [])), old_heap = (\<lambda>i. NUL)\<rparr>
     [''client'', ''h.net'', nat_digits 65979, ''GET'', ''/'']))"
proof -
  let ?argv = "[''client'', ''h.net'', nat_digits 65979, ''GET'', ''/'']"
  have "snd (build_message ?argv) = Inr (get_text ?argv)" by (rule build_get) simp_all
  from main_client_connects_to_port [OF _ _ _ this, of 65979 "\<lparr>host_found = True, sock_fd = 3, connect_ok = True,
     client_tls = sample_env, client_writes = (\<lambda>k n. n), client_reads = (\<lambda>k. (0, [])), old_heap = (\<lambda>i. NUL)\<rparr>"]
  show ?thesis by simp
qed

text \<open>The Windows build sends the request in the clear: when the network calls succeed, what is written to the socket is the
  request itself, and on no path does that build write anything through TLS or set TLS up. A failed \<^verbatim>\<open>recv\<close> makes it write
  before the response buffer.\<close>

theorem main_client_win_plaintext:
  assumes "5 \<le> length argv" "snd (build_message argv) = Inr msg" "wsa_startup w = 0" "win_host w" "0 \<le> win_connect w"
    "win_send w = int (length msg)"
  shows "SockWrite (win_sock w) msg \<in> set (fst (main_client_win w argv)) \<and>
    snd (main_client_win w argv) =
      Inr (0, if fst (win_recv w) = - 1 then win_stack w else cstr_of (take (nat (fst (win_recv w))) (snd (win_recv w)))) \<and>
    (fst (win_recv w) = - 1 \<longrightarrow> Fault (OutOfBounds ''response'') \<in> set (fst (main_client_win w argv))) \<and>
    (\<forall>w' argv' s. SslWrite s \<notin> set (fst (main_client_win w' argv')) \<and>
      Call ''OPENSSL_init'' \<notin> set (fst (main_client_win w' argv')))"
proof (intro conjI allI impI)
  show "SockWrite (win_sock w) msg \<in> set (fst (main_client_win w argv))"
    using assms by (simp add: main_client_win_def bind_def fst_snd_seq emit_def split_def)
  show "snd (main_client_win w argv) =
      Inr (0, if fst (win_recv w) = - 1 then win_stack w else cstr_of (take (nat (fst (win_recv w))) (snd (win_recv w))))"
    using assms by (simp add: main_client_win_def bind_def fst_snd_seq emit_def guard_bounds_def split_def Let_def)
  show "Fault (OutOfBounds ''response'') \<in> set (fst (main_client_win w argv))" if "fst (win_recv w) = - 1"
    using assms that by (simp add: main_client_win_def bind_def fst_snd_seq emit_def split_def)
  fix w' argv' s
  have b: "log_all (\<lambda>e. e \<noteq> SslWrite s \<and> e \<noteq> Call ''OPENSSL_init'') (build_message argv')" by (rule build_log) simp
  have "log_all (\<lambda>e. e \<noteq> SslWrite s \<and> e \<noteq> Call ''OPENSSL_init'') (main_client_win w' argv')"
    unfolding main_client_win_def split_def Let_def by (intro log_intros b) simp_all
  then show "SslWrite s \<notin> set (fst (main_client_win w' argv'))" "Call ''OPENSSL_init'' \<notin> set (fst (main_client_win w' argv'))"
    by (auto simp: log_all_def list_all_iff)
qed

theorem main_client_win_plaintext_witness:
  "SockWrite 3 (''GET / HTTP/1.0'' @ crlf @ ''Host: h.net'' @ crlf @ crlf) \<in>
     set (fst (main_client_win \<lparr>wsa_startup = 0, win_sock = 3, win_host = True, win_connect = 0, win_send = 31,
       win_recv = (2, ''OK''), win_stack = []\<rparr> [''client'', ''h.net'', ''80'', ''GET'', ''/'']))"
proof -
  let ?argv = "[''client'', ''h.net'', ''80'', ''GET'', ''/'']"
  let ?msg = "''GET / HTTP/1.0'' @ crlf @ ''Host: h.net'' @ crlf @ crlf"
  have b: "snd (build_message ?argv) = Inr ?msg"
    using build_get [of ?argv] by (simp add: get_text_def client_host_def client_path_def header_bytes_def)
  show ?thesis
    using main_client_win_plaintext [of ?argv ?msg "\<lparr>wsa_startup = 0, win_sock = 3, win_host = True, win_connect = 0,
      win_send = 31, win_recv = (2, ''OK''), win_stack = []\<rparr>"] b
    by (simp add: crlf_def)
qed

end
