(* ===== verification/Stacks.thy ===== *)
theory Stacks
  imports Oop_Dict
begin

text \<open>
  The rest of \<^verbatim>\<open>src/util/oop.h\<close> and \<^verbatim>\<open>src/util/oop.c\<close>: two stacks behind a table of methods, the module and the
  constructor of the hash map. The methods of the stacks and the constructor have empty bodies: they change nothing, and
  the value of one that should return something is undetermined (\<open>None\<close>).
\<close>

section \<open>The stacks\<close>

text \<open>The twelve functions whose addresses are stored in the tables.\<close>

datatype stack_fun =
    stack_array_top | stack_array_pop | stack_array_push | stack_array_empty | stack_array_full | stack_array_destroy
  | stack_list_top | stack_list_pop | stack_list_push | stack_list_empty | stack_list_full | stack_list_destroy

record StackInterface =
  top_fun :: stack_fun
  pop_fun :: stack_fun
  push_fun :: stack_fun
  empty_fun :: stack_fun
  full_fun :: stack_fun
  destroy_fun :: stack_fun

definition STACK_ARRAY_MAX :: nat where "STACK_ARRAY_MAX = 10000"

text \<open>The object behind a \<^verbatim>\<open>struct Stack *\<close>: the table and what the implementation adds to it.\<close>

datatype stack_data_t = StackArray (sa_idx: int) (sa_array: "int option list") | StackList (sl_head: "nat option")

record Stack =
  vtable :: StackInterface
  stack_data :: stack_data_t

definition stack_array_create :: Stack where
  "stack_array_create =
     \<lparr>vtable = \<lparr>top_fun = stack_array_top, pop_fun = stack_array_pop, push_fun = stack_array_push,
        empty_fun = stack_array_empty, full_fun = stack_array_full, destroy_fun = stack_array_destroy\<rparr>,
      stack_data = StackArray 0 (replicate STACK_ARRAY_MAX None)\<rparr>"

definition stack_list_create :: Stack where
  "stack_list_create =
     \<lparr>vtable = \<lparr>top_fun = stack_list_top, pop_fun = stack_list_pop, push_fun = stack_list_push,
        empty_fun = stack_list_empty, full_fun = stack_list_full, destroy_fun = stack_list_destroy\<rparr>,
      stack_data = StackList None\<rparr>"

text \<open>
  A call through the table: which function runs, with which argument, is logged. Every body is empty, so the object is
  unchanged and a result is undetermined.
\<close>

datatype stack_call = StackCall stack_fun "int option"

definition invoke :: "stack_fun \<Rightarrow> int option \<Rightarrow> Stack \<Rightarrow> stack_call \<times> int option \<times> Stack" where
  "invoke f x s = (StackCall f x, None, s)"

definition stack_top :: "Stack \<Rightarrow> stack_call \<times> int option \<times> Stack" where
  "stack_top s = invoke (top_fun (vtable s)) None s"

definition stack_pop :: "Stack \<Rightarrow> stack_call \<times> int option \<times> Stack" where
  "stack_pop s = invoke (pop_fun (vtable s)) None s"

definition stack_push :: "Stack \<Rightarrow> int \<Rightarrow> stack_call \<times> int option \<times> Stack" where
  "stack_push s x = invoke (push_fun (vtable s)) (Some x) s"

definition stack_empty :: "Stack \<Rightarrow> stack_call \<times> int option \<times> Stack" where
  "stack_empty s = invoke (empty_fun (vtable s)) None s"

definition stack_full :: "Stack \<Rightarrow> stack_call \<times> int option \<times> Stack" where
  "stack_full s = invoke (full_fun (vtable s)) None s"

definition stack_destroy :: "Stack \<Rightarrow> stack_call \<times> int option \<times> Stack" where
  "stack_destroy s = invoke (destroy_fun (vtable s)) None s"


section \<open>The module and the hash map\<close>

record Module =
  module_element :: int

definition Module_create :: Module where
  "Module_create = \<lparr>module_element = 0\<rparr>"

definition Module_get_element :: "Module \<Rightarrow> int" where
  "Module_get_element m = module_element m"

definition Module_set_element :: "Module \<Rightarrow> int \<Rightarrow> Module" where
  "Module_set_element m e = m\<lparr>module_element := e\<rparr>"

text \<open>\<^verbatim>\<open>create_map\<close> has an empty body: the pointer it returns is undetermined.\<close>

definition create_map :: "nat option" where
  "create_map = None"


section \<open>Properties\<close>

text \<open>The implementation a function belongs to.\<close>

fun is_array_fun :: "stack_fun \<Rightarrow> bool" where
  "is_array_fun stack_array_top = True"
| "is_array_fun stack_array_pop = True"
| "is_array_fun stack_array_push = True"
| "is_array_fun stack_array_empty = True"
| "is_array_fun stack_array_full = True"
| "is_array_fun stack_array_destroy = True"
| "is_array_fun _ = False"

fun called :: "stack_call \<times> 'a \<Rightarrow> stack_fun" where
  "called (StackCall f x, _) = f"

text \<open>The six operations as the client calls them.\<close>

datatype stack_op = Top | Pop | Push int | Empty | Full | Destroy

fun run_op :: "stack_op \<Rightarrow> Stack \<Rightarrow> stack_call \<times> int option \<times> Stack" where
  "run_op Top s = stack_top s"
| "run_op Pop s = stack_pop s"
| "run_op (Push x) s = stack_push s x"
| "run_op Empty s = stack_empty s"
| "run_op Full s = stack_full s"
| "run_op Destroy s = stack_destroy s"

inductive stack_reachable :: "Stack \<Rightarrow> Stack \<Rightarrow> bool" for s0 where
  start: "stack_reachable s0 s0"
| step: "stack_reachable s0 s \<Longrightarrow> stack_reachable s0 (snd (snd (run_op f s)))"

lemma run_op_stub: "run_op f s = (fst (run_op f s), None, s)"
  by (cases f) (simp_all add: stack_top_def stack_pop_def stack_push_def stack_empty_def stack_full_def stack_destroy_def invoke_def)

lemma stack_reachable_eq: "stack_reachable s0 s \<Longrightarrow> s = s0"
proof (induction rule: stack_reachable.induct)
  case (step s f)
  then show ?case using run_op_stub [of f s] by (metis snd_conv)
qed simp

text \<open>Dynamic dispatch: after any sequence of operations, on the stack made by either constructor, each of the six
  operations still calls a function of that implementation (so a client never crosses over); but none of them does
  anything: the object is as it was created, so a pushed element is not there, and no result is determined.\<close>

theorem stack_dispatch:
  shows "stack_reachable stack_array_create s \<Longrightarrow> is_array_fun (called (run_op f s)) \<and> fst (snd (run_op f s)) = None \<and>
      stack_data s = StackArray 0 (replicate STACK_ARRAY_MAX None)"
    and "stack_reachable stack_list_create s \<Longrightarrow> \<not> is_array_fun (called (run_op f s)) \<and> fst (snd (run_op f s)) = None \<and>
      stack_data s = StackList None"
  by (cases f; drule stack_reachable_eq;
      simp add: stack_array_create_def stack_list_create_def stack_top_def stack_pop_def stack_push_def stack_empty_def
        stack_full_def stack_destroy_def invoke_def)+

theorem stack_dispatch_witness:
  "is_array_fun (called (run_op Top (snd (snd (run_op (Push 5) stack_array_create))))) \<and>
   \<not> is_array_fun (called (run_op Pop stack_list_create))"
  using stack_dispatch(1) [OF stack_reachable.step [OF stack_reachable.start], of Top "Push 5"]
    stack_dispatch(2) [OF stack_reachable.start, of Pop] by simp

end
