(* ===== verification/Arithmetic.thy ===== *)
theory Arithmetic
  imports Complex_Main C_Prelude
begin

text \<open>
  \<^verbatim>\<open>src/util/arithmetic.h\<close>: a primality test with random bases and the search for a prime built on it.
  \<^verbatim>\<open>unsigned long\<close> values are numbers below \<open>2 ^ 64\<close>, \<^verbatim>\<open>int\<close> values are integers with the conversion to 32 bits
  written out; a product that leaves the range of \<^verbatim>\<open>int\<close> is logged and wraps around. \<open>rnd k\<close> is the \<open>k\<close>-th
  value of \<^verbatim>\<open>rand\<close>.
\<close>

section \<open>The code\<close>

definition to_int32 :: "int \<Rightarrow> int" where
  "to_int32 x = sint (word_of_int x :: 32 word)"

text \<open>\<^verbatim>\<open>(x * y) % val\<close> for two \<^verbatim>\<open>int\<close> factors and an \<^verbatim>\<open>unsigned long\<close> modulus, stored in an \<^verbatim>\<open>int\<close>.\<close>

definition mulmod :: "int \<Rightarrow> int \<Rightarrow> int \<Rightarrow> int run" where
  "mulmod x y val =
     seq (if - (2 ^ 31) \<le> x * y \<and> x * y < 2 ^ 31 then ret () else emit (Fault (SignedOverflow ''int'')))
     (if val = 0 then halt (Crash (DivByZero ''val''))
      else ret (to_int32 ((to_int32 (x * y) mod 2 ^ 64) mod val)))"

text \<open>
  The loop \<^verbatim>\<open>while (exp)\<close>. The shift of a negative exponent keeps it negative, so with such an exponent the
  loop has no end (unless the modulus is 0, which the first division stops at).
\<close>

function isPrime_power :: "int \<Rightarrow> int \<Rightarrow> int \<Rightarrow> int \<Rightarrow> int run" where
  "isPrime_power val p a e =
     (if e = 0 then ret p
      else if e < 0 \<and> val \<noteq> 0 then halt Hang
      else
        bind (if odd e then mulmod p a val else ret p) (\<lambda>p'.
        bind (mulmod a a val) (\<lambda>a'.
          if e < 0 then halt Hang else isPrime_power val p' a' (e div 2))))"
  by pat_completeness auto
termination
  by (relation "measure (\<lambda>(val, p, a, e). nat e)") auto

declare isPrime_power.simps [simp del]

text \<open>The nine rounds; the result is the value returned and the number of random values used so far.\<close>

fun isPrime_rounds :: "(nat \<Rightarrow> int) \<Rightarrow> nat \<Rightarrow> nat \<Rightarrow> int \<Rightarrow> (int \<times> nat) run" where
  "isPrime_rounds rnd 0 k val = ret (1, k)"
| "isPrime_rounds rnd (Suc i) k val =
     (if (val - 4) mod 2 ^ 64 = 0 then halt (Crash (DivByZero ''val-4''))
      else
        bind (isPrime_power val 1 (to_int32 (rnd k mod ((val - 4) mod 2 ^ 64) + 2)) (to_int32 (val - 1))) (\<lambda>p.
          if p \<noteq> 1 then ret (0, k + 1) else isPrime_rounds rnd i (k + 1) val))"

definition isPrime :: "(nat \<Rightarrow> int) \<Rightarrow> nat \<Rightarrow> int \<Rightarrow> (int \<times> nat) run" where
  "isPrime rnd k val = isPrime_rounds rnd 9 k val"

text \<open>\<^verbatim>\<open>val += n\<close> on an \<^verbatim>\<open>int\<close>.\<close>

definition add_int :: "int \<Rightarrow> int \<Rightarrow> int run" where
  "add_int x n =
     seq (if x + n < 2 ^ 31 then ret () else emit (Fault (SignedOverflow ''val''))) (ret (to_int32 (x + n)))"

text \<open>The loop \<^verbatim>\<open>while (!isPrime(val)) val += 2\<close>; \<^verbatim>\<open>val\<close> is converted to \<^verbatim>\<open>unsigned long\<close> for the call.\<close>

partial_function (option) findPrime_loop ::
  "(nat \<Rightarrow> int) \<Rightarrow> nat \<Rightarrow> int \<Rightarrow> event list \<Rightarrow> (event list \<times> (halt + int)) option"
where
  "findPrime_loop rnd k val evs =
     (let t = isPrime rnd k (val mod 2 ^ 64) in
      case snd t of
        Inl h \<Rightarrow> Some (evs @ fst t, Inl h)
      | Inr (b, k') \<Rightarrow>
          if b \<noteq> 0 then Some (evs @ fst t, Inr val)
          else findPrime_loop rnd k' (to_int32 (val + 2)) (evs @ fst t @ fst (add_int val 2)))"

definition findPrimeGreaterThan :: "(nat \<Rightarrow> int) \<Rightarrow> int \<Rightarrow> int run" where
  "findPrimeGreaterThan rnd val =
     bind (if odd val then add_int val 2 else add_int val 1) (\<lambda>v.
       case findPrime_loop rnd 0 v [] of None \<Rightarrow> halt Hang | Some m \<Rightarrow> m)"


section \<open>Fermat's theorem\<close>

text \<open>Primes, and the theorem of Fermat from the binomial theorem.\<close>

definition prime_nat :: "nat \<Rightarrow> bool" where
  "prime_nat p \<longleftrightarrow> 1 < p \<and> (\<forall>d. d dvd p \<longrightarrow> d = 1 \<or> d = p)"

lemma prime_nat_coprime:
  assumes "prime_nat p" "\<not> p dvd n"
  shows "coprime p n"
proof (rule coprimeI)
  fix d assume d: "d dvd p" "d dvd n"
  with assms have "d \<noteq> p" by auto
  with assms(1) d(1) show "is_unit d" by (auto simp: prime_nat_def)
qed

lemma prime_dvd_binomial:
  assumes "prime_nat p" "0 < k" "k < p"
  shows "p dvd (p choose k)"
proof -
  have "k * (p choose k) = p * ((p - 1) choose (k - 1))" using assms(2) by (simp add: times_binomial_minus1_eq)
  then have "p dvd k * (p choose k)" by simp
  moreover have "coprime p k" using assms by (intro prime_nat_coprime) (auto dest: dvd_imp_le)
  ultimately show ?thesis by (simp add: coprime_dvd_mult_right_iff)
qed

lemma fermat_power:
  assumes "prime_nat p"
  shows "a ^ p mod p = a mod p"
proof (induction a)
  case 0
  then show ?case using assms by (simp add: prime_nat_def power_0_left)
next
  case (Suc a)
  have p: "1 < p" using assms by (simp add: prime_nat_def)
  have "Suc a ^ p = (\<Sum>k\<le>p. (p choose k) * a ^ k)"
    using binomial_ring [of a 1 p] by simp
  also have "\<dots> = (\<Sum>k \<in> {0, p}. (p choose k) * a ^ k) + (\<Sum>k \<in> {1..<p}. (p choose k) * a ^ k)"
  proof -
    have "{..p} = {0, p} \<union> {1..<p}" using p by auto
    then show ?thesis using p by (simp add: sum.union_disjoint)
  qed
  also have "(\<Sum>k \<in> {0, p}. (p choose k) * a ^ k) = 1 + a ^ p" using p by simp
  finally have e: "Suc a ^ p = 1 + a ^ p + (\<Sum>k \<in> {1..<p}. (p choose k) * a ^ k)" .
  have "p dvd (\<Sum>k \<in> {1..<p}. (p choose k) * a ^ k)"
    by (intro dvd_sum dvd_mult2 prime_dvd_binomial [OF assms]) auto
  then have "Suc a ^ p mod p = (1 + a ^ p) mod p" unfolding e by (metis add_0_right dvd_imp_mod_0 mod_add_right_eq)
  also have "\<dots> = (1 + a) mod p" using Suc by (metis mod_add_right_eq)
  finally show ?case by simp
qed

lemma fermat_little:
  assumes "prime_nat p" "0 < a" "a < p"
  shows "a ^ (p - 1) mod p = 1"
proof -
  have p: "1 < p" using assms by (simp add: prime_nat_def)
  have co: "coprime p a" using assms by (intro prime_nat_coprime) (auto dest: dvd_imp_le)
  have "a ^ p = a * a ^ (p - 1)" using p by (metis Suc_diff_1 less_trans power_Suc zero_less_one)
  then have "p dvd a * a ^ (p - 1) - a" using fermat_power [OF assms(1), of a] mod_eq_dvd_iff_nat [of a "a * a ^ (p - 1)" p] assms(2)
    by simp
  then have "p dvd a * (a ^ (p - 1) - 1)" by (simp add: right_diff_distrib')
  then have "p dvd a ^ (p - 1) - 1" using co by (simp add: coprime_dvd_mult_right_iff)
  then have "a ^ (p - 1) mod p = 1 mod p" using assms(2) by (subst mod_eq_dvd_iff_nat) simp_all
  then show ?thesis using p by simp
qed

section \<open>The power loop computes the modular power\<close>

text \<open>
  For a modulus of at most 46341 no product of two residues leaves the range of \<^verbatim>\<open>int\<close>, and the loop is
  exponentiation by squaring.
\<close>

lemma to_int32_id: "0 \<le> x \<Longrightarrow> x < 2 ^ 31 \<Longrightarrow> to_int32 x = x"
  using sint32_nat [of "nat x"] by (simp add: to_int32_def nat_less_iff)

lemma residue_product:
  fixes x y val :: int
  assumes "0 \<le> x" "x < val" "0 \<le> y" "y < val" "val \<le> 46341"
  shows "0 \<le> x * y" "x * y < 2 ^ 31"
proof -
  show "0 \<le> x * y" using assms by simp
  have "x * y \<le> 46340 * 46340" using assms by (intro mult_mono) auto
  then show "x * y < 2 ^ 31" by simp
qed

lemma mulmod_residues:
  assumes "0 \<le> x" "x < val" "0 \<le> y" "y < val" "val \<le> 46341"
  shows "mulmod x y val = ret (x * y mod val)"
proof -
  note p = residue_product [OF assms]
  have "to_int32 (x * y) mod 2 ^ 64 = x * y" using p by (simp add: to_int32_id)
  moreover have "to_int32 (x * y mod val) = x * y mod val"
  proof (rule to_int32_id)
    have "x * y mod val < val" using assms by (intro pos_mod_bound) simp
    then show "x * y mod val < 2 ^ 31" using assms(5) by simp
  qed (use assms in simp)
  moreover have "- (2 ^ 31) \<le> x * y" by (rule order_trans [OF _ p(1)]) simp
  ultimately show ?thesis using assms p(2) by (simp add: mulmod_def)
qed

lemma square_step:
  fixes p a val :: int
  shows "(if odd e then p * a mod val else p) * (a * a mod val) ^ (e div 2) mod val = p * a ^ e mod val"
proof -
  have "(a * a mod val) ^ (e div 2) mod val = (a * a) ^ (e div 2) mod val" by (rule power_mod)
  moreover have "a ^ e = (if odd e then a else 1) * (a * a) ^ (e div 2)"
    by (cases "odd e")
       (auto simp: power_mult [symmetric] power2_eq_square [symmetric] odd_two_times_div_two_nat
          elim: oddE evenE)
  ultimately show ?thesis
    by (simp add: mult.assoc) (metis (no_types, opaque_lifting) mod_mult_left_eq mod_mult_right_eq mult.assoc)
qed

lemma isPrime_power_eq:
  assumes "0 \<le> p" "p < val" "0 \<le> a" "a < val" "val \<le> 46341"
  shows "isPrime_power val p a (int e) = ret (p * a ^ e mod val)"
  using assms(1-4)
proof (induction e arbitrary: p a rule: less_induct)
  case (less e)
  show ?case
  proof (cases "e = 0")
    case True
    then show ?thesis using less.prems by (simp add: isPrime_power.simps)
  next
    case False
    define p' where "p' = (if odd e then p * a mod val else p)"
    have v: "0 < val" using less.prems by simp
    have r: "0 \<le> p'" "p' < val" "0 \<le> a * a mod val" "a * a mod val < val"
      using less.prems v by (auto simp: p'_def)
    have "(if odd (int e) then mulmod p a val else ret p) = ret p'"
      using mulmod_residues [of p val a] less.prems assms(5) by (simp add: p'_def)
    moreover have "mulmod a a val = ret (a * a mod val)"
      using mulmod_residues [of a val a] less.prems assms(5) by simp
    ultimately have "isPrime_power val p a (int e) = isPrime_power val p' (a * a mod val) (int (e div 2))"
      using False by (simp add: isPrime_power.simps [of val p a] zdiv_int)
    also have "\<dots> = ret (p' * (a * a mod val) ^ (e div 2) mod val)"
      using False r by (intro less.IH) auto
    finally show ?thesis using square_step [of e p a val] by (simp add: p'_def)
  qed
qed

section \<open>The test\<close>

text \<open>The base of a round, and what the round tests: whether the base is a Fermat liar for the number.\<close>

definition round_base :: "(nat \<Rightarrow> int) \<Rightarrow> nat \<Rightarrow> int \<Rightarrow> int" where
  "round_base rnd k val = rnd k mod (val - 4) + 2"

definition liar :: "int \<Rightarrow> int \<Rightarrow> bool" where
  "liar a val \<longleftrightarrow> a ^ nat (val - 1) mod val = 1"

lemma round_base_range:
  assumes "5 \<le> val"
  shows "2 \<le> round_base rnd k val" "round_base rnd k val \<le> val - 3"
proof -
  have "rnd k mod (val - 4) < val - 4" using assms by (intro pos_mod_bound) simp
  then show "round_base rnd k val \<le> val - 3" by (simp add: round_base_def)
  show "2 \<le> round_base rnd k val" using assms by (simp add: round_base_def)
qed

lemma isPrime_round:
  assumes "5 \<le> val" "val \<le> 46341"
  shows "isPrime_rounds rnd (Suc i) k val =
    (if liar (round_base rnd k val) val then isPrime_rounds rnd i (k + 1) val else ret (0, k + 1))"
proof -
  note b = round_base_range [OF assms(1), of rnd k]
  have m: "(val - 4) mod 2 ^ 64 = val - 4" using assms by (intro mod_pos_pos_trivial) auto
  have "to_int32 (round_base rnd k val) = round_base rnd k val" using b assms by (intro to_int32_id) auto
  moreover have "to_int32 (val - 1) = int (nat (val - 1))" using assms by (subst to_int32_id) auto
  moreover have "isPrime_power val 1 (round_base rnd k val) (int (nat (val - 1))) =
      ret (round_base rnd k val ^ nat (val - 1) mod val)"
    using isPrime_power_eq [of 1 val "round_base rnd k val" "nat (val - 1)"] b assms by simp
  ultimately show ?thesis using assms by (simp add: m liar_def round_base_def [symmetric])
qed

lemma isPrime_rounds_eq:
  assumes "5 \<le> val" "val \<le> 46341"
  shows "\<exists>k'. isPrime_rounds rnd i k val =
    ret (if (\<forall>j<i. liar (round_base rnd (k + j) val) val) then 1 else 0, k') \<and> k' \<le> k + i"
proof (induction i arbitrary: k)
  case 0
  then show ?case by simp
next
  case (Suc i)
  show ?case
  proof (cases "liar (round_base rnd k val) val")
    case True
    then show ?thesis using Suc.IH [of "k + 1"] isPrime_round [OF assms, of rnd i k]
      by (auto simp: All_less_Suc2)
  next
    case False
    then show ?thesis using isPrime_round [OF assms, of rnd i k] by (auto simp: All_less_Suc2)
  qed
qed

lemma prime_liar:
  assumes "prime_nat (nat val)" "0 < a" "a < val"
  shows "liar a val"
proof -
  have "nat a ^ (nat val - 1) mod nat val = 1" using assms by (intro fermat_little) auto
  then have "int (nat a ^ (nat val - 1) mod nat val) = 1" by simp
  then show ?thesis using assms by (simp add: liar_def zmod_int nat_diff_distrib)
qed

lemma isPrime_rounds_prime:
  assumes "prime_nat (nat val)" "5 \<le> val" "val \<le> 46341"
  shows "isPrime_rounds rnd i k val = ret (1, k + i)"
proof (induction i arbitrary: k)
  case (Suc i)
  have "liar (round_base rnd k val) val"
    using round_base_range [OF assms(2), of rnd k] by (intro prime_liar assms(1)) auto
  then show ?case using Suc isPrime_round [OF assms(2,3)] by simp
qed simp

section \<open>The search\<close>

lemma add_int_small: "0 \<le> x \<Longrightarrow> 0 \<le> n \<Longrightarrow> x + n < 2 ^ 31 \<Longrightarrow> add_int x n = ret (x + n)"
  by (simp add: add_int_def to_int32_id)

text \<open>One round of the loop on a number in the range the test is correct for.\<close>

lemma findPrime_step:
  assumes "5 \<le> v" "v \<le> 46341"
  shows "\<exists>k'. findPrime_loop rnd k v evs =
    (if \<forall>j<9. liar (round_base rnd (k + j) v) v then Some (evs, Inr v) else findPrime_loop rnd k' (v + 2) evs)"
proof -
  from isPrime_rounds_eq [OF assms, of rnd 9 k] obtain k' where
    "isPrime rnd k (v mod 2 ^ 64) = ret (if (\<forall>j<9. liar (round_base rnd (k + j) v) v) then 1 else 0, k')"
    using assms by (auto simp: isPrime_def)
  moreover have "add_int v 2 = ret (v + 2)" "to_int32 (v + 2) = v + 2"
    using assms by (auto intro!: add_int_small to_int32_id)
  ultimately show ?thesis
    by (cases "\<forall>j<9. liar (round_base rnd (k + j) v) v") (auto simp: findPrime_loop.simps [of rnd k v] Let_def)
qed

definition found :: "(nat \<Rightarrow> int) \<Rightarrow> int \<Rightarrow> int \<Rightarrow> bool" where
  "found rnd lo v \<longleftrightarrow> odd v \<and> lo \<le> v \<and> (\<forall>r. prime_nat r \<and> odd r \<and> lo \<le> int r \<longrightarrow> v \<le> int r) \<and>
     (\<exists>k. \<forall>j<9. liar (round_base rnd (k + j) v) v)"

lemma findPrime_loop_ends:
  assumes "prime_nat q" "int q \<le> 46341"
  shows "odd v \<Longrightarrow> odd q \<Longrightarrow> 5 \<le> v \<Longrightarrow> v \<le> int q \<Longrightarrow>
    \<exists>v'. findPrime_loop rnd k v evs = Some (evs, Inr v') \<and> found rnd v v'"
proof (induction "nat (int q - v)" arbitrary: v k rule: less_induct)
  case less
  have v: "5 \<le> v" "v \<le> 46341" using less.prems assms by auto
  from findPrime_step [OF v, of rnd k evs] obtain k' where step: "findPrime_loop rnd k v evs =
    (if \<forall>j<9. liar (round_base rnd (k + j) v) v then Some (evs, Inr v) else findPrime_loop rnd k' (v + 2) evs)" ..
  show ?case
  proof (cases "\<forall>j<9. liar (round_base rnd (k + j) v) v")
    case True
    then show ?thesis using step less.prems by (auto simp: found_def)
  next
    case False
    then obtain j where j: "\<not> liar (round_base rnd (k + j) v) v" by auto
    then have np: "\<not> prime_nat (nat v)" using prime_liar [of v "round_base rnd (k + j) v"] round_base_range [OF v(1), of rnd "k + j"] by auto
    then have "v \<noteq> int q" using assms(1) by auto
    then have "v + 2 \<le> int q" using less.prems by presburger
    then obtain v' where v': "findPrime_loop rnd k' (v + 2) evs = Some (evs, Inr v')" "found rnd (v + 2) v'"
      using less.hyps [of "v + 2" k'] less.prems by auto
    have "v + 2 \<le> int r" if "prime_nat r" "odd r" "v \<le> int r" for r
      using that np less.prems(1) by (cases "v = int r") (auto, presburger)
    then have "found rnd v v'" using v'(2) by (auto simp: found_def)
    then show ?thesis using v' step False by auto
  qed
qed

text \<open>Trial division, for concrete primes.\<close>

lemma prime_nat_trial:
  assumes "1 < p" "p < n * n" "list_all (\<lambda>d. p mod d \<noteq> 0 \<or> d = p) [2..<n]"
  shows "prime_nat p"
proof (rule ccontr)
  assume "\<not> prime_nat p"
  then obtain d where d: "d dvd p" "d \<noteq> 1" "d \<noteq> p" using assms(1) by (auto simp: prime_nat_def)
  then obtain e where e: "p = d * e" by auto
  have "d < n \<or> e < n" using assms(2) e by (meson mult_le_mono not_le)
  moreover have "\<not> (c < n \<and> c dvd p \<and> c \<noteq> 1 \<and> c \<noteq> p)" for c
  proof
    assume c: "c < n \<and> c dvd p \<and> c \<noteq> 1 \<and> c \<noteq> p"
    then have "c \<in> set [2..<n]" using assms(1) by (cases c; cases "c = 1") auto
    then have "p mod c \<noteq> 0 \<or> c = p" using assms(3) unfolding list_all_iff by blast
    then show False using c by (simp add: mod_eq_0_iff_dvd)
  qed
  moreover have "e \<noteq> 1" "e \<noteq> p" "e dvd p" using d e assms(1) by (auto intro: gr0I)
  ultimately show False using d by blast
qed

lemma prime_46337: "prime_nat 46337"
  by (rule prime_nat_trial [of _ 216]) (simp_all add: upt_rec_numeral)

lemma prime_odd: "prime_nat r \<Longrightarrow> 2 < r \<Longrightarrow> odd r"
  by (auto simp: prime_nat_def)

text \<open>A start value in the range of the search.\<close>

lemma findPrime_start:
  assumes "3 \<le> val" "val < 46337"
  shows "(if odd val then add_int val 2 else add_int val 1) = ret (if odd val then val + 2 else val + 1)"
  using assms by (auto intro!: add_int_small)


section \<open>The properties\<close>

text \<open>C19. For a number from 5 to 46341 \<^verbatim>\<open>isPrime\<close> is the Fermat test with nine random bases between 2 and
  \<open>val - 3\<close>: no product overflows, it returns, and the answer is 1 exactly if every one of the nine bases has
  \<open>a ^ (val - 1) mod val = 1\<close>, whatever the random numbers.\<close>

theorem isPrime_is_fermat_test:
  assumes "5 \<le> val" "val \<le> 46341"
  shows "\<exists>k'. isPrime rnd k val =
      ret (if (\<forall>j<9. round_base rnd (k + j) val ^ nat (val - 1) mod val = 1) then 1 else 0, k') \<and>
    k' \<le> k + 9 \<and> (\<forall>j. round_base rnd j val \<in> {2..val - 3})"
proof -
  from isPrime_rounds_eq [OF assms, of rnd 9 k] obtain k' where
    "isPrime rnd k val = ret (if (\<forall>j<9. liar (round_base rnd (k + j) val) val) then 1 else 0, k')" "k' \<le> k + 9"
    unfolding isPrime_def by blast
  then show ?thesis using round_base_range [OF assms(1), of rnd] unfolding liar_def atLeastAtMost_iff by blast
qed

theorem isPrime_is_fermat_test_witness:
  "\<exists>k'. isPrime (\<lambda>k. int k) 0 15 =
      ret (if (\<forall>j<9. round_base (\<lambda>k. int k) (0 + j) 15 ^ nat (15 - 1) mod 15 = 1) then 1 else 0, k') \<and>
    k' \<le> 0 + 9 \<and> (\<forall>j. round_base (\<lambda>k. int k) j 15 \<in> {2..15 - 3})"
  by (rule isPrime_is_fermat_test) simp_all

text \<open>\<^verbatim>\<open>isPrime\<close> never rejects a prime in that range: for a prime from 5 to 46341 it answers 1 after nine random
  numbers, without a fault.\<close>

theorem isPrime_accepts_primes:
  assumes "prime_nat (nat val)" "5 \<le> val" "val \<le> 46341"
  shows "isPrime rnd k val = ret (1, k + 9)"
  by (simp add: isPrime_def isPrime_rounds_prime [OF assms])

theorem isPrime_accepts_primes_witness: "isPrime (\<lambda>k. int k * 7919) 0 46337 = ret (1, 0 + 9)"
  by (rule isPrime_accepts_primes) (simp_all add: prime_46337)

text \<open>C20. For a start value from 3 to 46336 \<^verbatim>\<open>findPrimeGreaterThan\<close> returns whatever the random numbers, without a
  fault, an odd number above the start value that passed the nine rounds of the test, and it does not jump over a
  prime: every prime above the start value is at least the result, so the result is at most 46337.\<close>

theorem findPrimeGreaterThan_returns:
  assumes "3 \<le> val" "val < 46337"
  shows "\<exists>v. findPrimeGreaterThan rnd val = ret v \<and> odd v \<and> val < v \<and> v \<le> 46337 \<and>
    (\<forall>r. prime_nat r \<and> val < int r \<longrightarrow> v \<le> int r) \<and>
    (\<exists>k. \<forall>j<9. liar (round_base rnd (k + j) v) v)"
proof -
  define s where "s = (if odd val then val + 2 else val + 1)"
  have s: "odd s" "5 \<le> s" "s \<le> int 46337" "val < s" using assms by (auto simp: s_def) presburger+
  from findPrime_loop_ends [OF prime_46337, of s rnd 0 "[]"] s obtain v
    where v: "findPrime_loop rnd 0 s [] = Some ([], Inr v)" "found rnd s v" by auto
  have "findPrimeGreaterThan rnd val = ret v"
    unfolding findPrimeGreaterThan_def findPrime_start [OF assms] by (simp add: s_def [symmetric] v(1)) (simp add: ret_def)
  moreover have below: "v \<le> int r" if r: "prime_nat r" "val < int r" for r
  proof -
    have "odd r" using r assms by (intro prime_odd) auto
    then have "s \<le> int r" using r by (auto simp: s_def) presburger
    then show ?thesis using v(2) r \<open>odd r\<close> by (auto simp: found_def)
  qed
  moreover have "v \<le> 46337" using below [OF prime_46337] assms by simp
  ultimately show ?thesis using v(2) s(4) by (auto simp: found_def)
qed

theorem findPrimeGreaterThan_returns_witness:
  "\<exists>v. findPrimeGreaterThan (\<lambda>k. int k) 100 = ret v \<and> odd v \<and> 100 < v \<and> v \<le> 46337 \<and>
    (\<forall>r. prime_nat r \<and> 100 < int r \<longrightarrow> v \<le> int r) \<and>
    (\<exists>k. \<forall>j<9. liar (round_base (\<lambda>k. int k) (k + j) v) v)"
  by (rule findPrimeGreaterThan_returns) simp_all

text \<open>The corners of the test: for 4 it divides by zero, it takes the prime 3 for composite when the random number
  is 1, it accepts the composite 561 when all bases are 2, and for 0 it divides by zero.\<close>

theorem isPrime_corners:
  "isPrime rnd k 4 = halt (Crash (DivByZero ''val-4''))"
  "isPrime (\<lambda>_. 1) k 3 = ret (0, k + 1)"
  "isPrime (\<lambda>_. 0) k 561 = ret (1, k + 9)"
  "snd (isPrime (\<lambda>_. 0) k 0) = Inl (Crash (DivByZero ''val''))"
proof -
  show "isPrime rnd k 4 = halt (Crash (DivByZero ''val-4''))" by (simp add: isPrime_def eval_nat_numeral)
  show "isPrime (\<lambda>_. 1) k 3 = ret (0, k + 1)"
    by (simp add: isPrime_def eval_nat_numeral isPrime_power.simps mulmod_def to_int32_def)
  have l: "liar (round_base (\<lambda>_. 0) i 561) 561" for i by (simp add: liar_def round_base_def)
  have "isPrime_rounds (\<lambda>_. 0) n i 561 = ret (1, i + n)" for n i
    by (induction n arbitrary: i) (simp_all add: isPrime_round l del: isPrime_rounds.simps(2))
  then show "isPrime (\<lambda>_. 0) k 561 = ret (1, k + 9)" by (simp add: isPrime_def)
  show "snd (isPrime (\<lambda>_. 0) k 0) = Inl (Crash (DivByZero ''val''))"
    by (simp add: isPrime_def eval_nat_numeral isPrime_power.simps mulmod_def to_int32_def)
qed

end
