(* ===== verification/Netops.thy ===== *)
theory Netops
  imports Server
begin

text \<open>
  \<^verbatim>\<open>src/util/netops.h\<close> (look-ups of addresses and names) and \<^verbatim>\<open>src/util/osinfo.c\<close> (the absolute path of a
  program). The resolver, the shell and the file system are parameters: what each call answers. What the
  functions print is part of their result, since printing is what they are for.
\<close>

section \<open>Addresses\<close>

type_synonym in_addr = "u8 \<times> u8 \<times> u8 \<times> u8"

text \<open>\<^verbatim>\<open>inet_ntoa\<close>: the four bytes in decimal with dots between them.\<close>

definition inet_ntoa :: "in_addr \<Rightarrow> string" where
  "inet_ntoa a =
     (case a of (b1, b2, b3, b4) \<Rightarrow>
        join_with ''.'' [nat_digits (unat b1), nat_digits (unat b2), nat_digits (unat b3), nat_digits (unat b4)])"

record hostent =
  h_name :: string
  h_addr_list :: "in_addr list"

text \<open>
  \<^verbatim>\<open>get_ip\<close> with a buffer of \<open>cap\<close> bytes at \<^verbatim>\<open>ip\<close>: the status and what it stored there, if anything. The loop
  over the addresses returns from its first round.
\<close>

definition get_ip :: "(string \<Rightarrow> hostent option) \<Rightarrow> nat \<Rightarrow> string \<Rightarrow> (int \<times> cptr) run" where
  "get_ip gethostbyname cap hostname =
     (case gethostbyname hostname of
        None \<Rightarrow> ret (- 1, None)
      | Some he \<Rightarrow>
          (case h_addr_list he of
             [] \<Rightarrow> ret (- 1, None)
           | a # _ \<Rightarrow> seq (guard_bounds ''ip'' cap (length (inet_ntoa a))) (ret (0, Some (inet_ntoa a)))))"

text \<open>
  The program: it prints what is in the array \<^verbatim>\<open>ip\<close> without looking at the status; \<open>junk\<close> is what the array
  holds when nothing was stored.
\<close>

definition main_netops :: "(string \<Rightarrow> hostent option) \<Rightarrow> string \<Rightarrow> string list \<Rightarrow> (int \<times> string) run" where
  "main_netops gethostbyname junk argv =
     (if length argv < 2 then halt (Exit 1)
      else
        bind (get_ip gethostbyname 100 (argv ! 1)) (\<lambda>(status, ip).
        bind (case ip of Some s \<Rightarrow> ret s | None \<Rightarrow> seq (emit (Fault (UninitRead ''ip''))) (ret junk)) (\<lambda>s.
          ret (0, (argv ! 1) @ '' resolved to '' @ s @ [CHR 0x0A]))))"

text \<open>
  \<^verbatim>\<open>inet_pton\<close> answers a status and, where it is 1, an address; \<^verbatim>\<open>gethostbyaddr\<close> the name, if there is one.
  The result of \<^verbatim>\<open>ip2Domain\<close> is the status returned and what was printed.
\<close>

record resolver =
  pton4 :: "string \<Rightarrow> int \<times> string"
  pton6 :: "string \<Rightarrow> int \<times> string"
  name4 :: "string \<Rightarrow> string option"
  name6 :: "string \<Rightarrow> string option"

definition host_line :: "string \<Rightarrow> string" where
  "host_line name = ''Host name: '' @ name @ [CHR 0x0A]"

definition ip2Domain :: "resolver \<Rightarrow> string \<Rightarrow> (int \<times> string) run" where
  "ip2Domain r ip =
     (let second =
        (let (status, addr) = pton6 r ip in
         if status = 1 then
           (case name6 r addr of Some n \<Rightarrow> ret (0, host_line n) | None \<Rightarrow> ret (- 1, []))
         else if status = - 1 then ret (- 1, [])
         else ret (- 1, []));
        (status, addr) = pton4 r ip in
      if status = 1 then
        (case name4 r addr of Some n \<Rightarrow> ret (0, host_line n) | None \<Rightarrow> second)
      else if status = - 1 then ret (- 1, [])
      else second)"

text \<open>
  \<^verbatim>\<open>domain2IpRange\<close>: \<^verbatim>\<open>hostname\<close> points to an allocated buffer at first and, from the first round of the loop on,
  to the string literal \<^verbatim>\<open>""\<close>, where \<^verbatim>\<open>getnameinfo\<close> is told that \<^verbatim>\<open>NI_MAXHOST\<close> bytes may be written. \<open>getaddrinfo\<close>
  answers the status and the list of addresses, \<open>getnameinfo\<close> the status and the name of one of them.
\<close>

datatype hostname_ptr = Allocated | Literal

fun range_loop ::
  "(string \<Rightarrow> int \<times> string) \<Rightarrow> hostname_ptr \<Rightarrow> string list \<Rightarrow> string list \<Rightarrow> (hostname_ptr \<times> string list) run"
where
  "range_loop getnameinfo hostname [] out = ret (hostname, out)"
| "range_loop getnameinfo hostname (a # as) out =
     (let (status, name) = getnameinfo a in
      if status \<noteq> 0 then range_loop getnameinfo Literal as out
      else
        seq (emit (Fault (OutOfBounds ''hostname'')))
        (range_loop getnameinfo Literal as (out @ [''hostname: '' @ name @ [CHR 0x0A]])))"

definition domain2IpRange ::
  "(string \<Rightarrow> int \<times> string list) \<Rightarrow> (string \<Rightarrow> int \<times> string) \<Rightarrow> string \<Rightarrow> (int \<times> string list) run"
where
  "domain2IpRange getaddrinfo getnameinfo domain =
     (let (status, addrs) = getaddrinfo domain in
      if status \<noteq> 0 then seq (emit (Call ''free hostname'')) (ret (- 1, []))
      else
        bind (range_loop getnameinfo Allocated addrs []) (\<lambda>(hostname, out).
          if hostname = Literal then halt (Crash (BadPointer ''hostname''))
          else
            seq (emit (Call ''free hostname''))
            (seq (if addrs = [] then ret () else emit (Call ''freeaddrinfo'')) (ret (0, out)))))"


section \<open>The absolute path of a program\<close>

text \<open>
  What the system answers: \<^verbatim>\<open>realpath\<close>, the output of a command started by \<^verbatim>\<open>popen\<close> (none: it could not be
  started), the target of a symbolic link, and the bytes that lie behind those \<^verbatim>\<open>readlink\<close> writes, up to the next NUL.
\<close>

record path_env =
  realpath_of :: "string \<Rightarrow> string option"
  popen_out :: "string \<Rightarrow> string option"
  readlink_of :: "string \<Rightarrow> string option"
  buffer_rest :: string

text \<open>\<^verbatim>\<open>fgets\<close> with a buffer of \<open>cap\<close> bytes: the first line with its line feed, cut at \<open>cap - 1\<close> bytes.\<close>

definition first_line :: "string \<Rightarrow> string" where
  "first_line s = takeWhile (\<lambda>c. c \<noteq> CHR 0x0A) s @ take 1 (dropWhile (\<lambda>c. c \<noteq> CHR 0x0A) s)"

definition fgets :: "nat \<Rightarrow> string \<Rightarrow> string option" where
  "fgets cap s = (if s = [] then None else Some (take (cap - 1) (first_line s)))"

text \<open>
  The result is the path and whether \<^verbatim>\<open>set_environ_flag\<close> is set. The command is an event. \<^verbatim>\<open>readlink\<close> is given
  \<^verbatim>\<open>sizeof(PATH_MAX)\<close>, the size of an \<^verbatim>\<open>int\<close>, and does not terminate what it writes.
\<close>

definition get_absolute_path :: "path_env \<Rightarrow> string \<Rightarrow> (string \<times> bool) run" where
  "get_absolute_path e relativepath =
     (case realpath_of e relativepath of
        Some p \<Rightarrow> ret (p, False)
      | None \<Rightarrow>
          let whichcmd = ''which '' @ relativepath in
          seq (guard_bounds ''whichcmd'' (1 + length ''which '' + length relativepath) (length whichcmd))
          (seq (emit (Call whichcmd))
          (bind (deref ''fp'' (popen_out e whichcmd)) (\<lambda>out.
             case fgets (PATH_MAX + 1) out of
               Some line \<Rightarrow>
                 seq (if cstr_of line = [] then emit (Fault (OutOfBounds ''abs_path'')) else ret ())
                 (seq (emit (Call ''pclose'')) (seq (emit (Call ''free whichcmd'')) (ret (butlast (cstr_of line), False))))
             | None \<Rightarrow>
                 seq (emit (Call ''pclose''))
                 (seq (emit (Call ''free whichcmd''))
                 (case readlink_of e relativepath of
                    Some t \<Rightarrow> seq (emit (Fault (UninitRead ''abs_path''))) (ret (take 4 t @ buffer_rest e, False))
                  | None \<Rightarrow> ret (relativepath, True)))))))"

section \<open>Lemmas\<close>

lemma nat_digits_no_dot: "CHR ''.'' \<notin> set (nat_digits n)"
  using nat_digits_byte [of "CHR ''.''" n] by (auto simp: byte_def)

lemma nat_digits_short: "n < 1000 \<Longrightarrow> length (nat_digits n) \<le> 3"
proof -
  assume n: "n < 1000"
  have one: "length (nat_digits m) = 1" if "m < 10" for m using that by (simp add: nat_digits.simps [of m])
  have two: "length (nat_digits m) \<le> 2" if "m < 100" for m
    using that one [of "m div 10"] by (simp add: nat_digits.simps [of m])
  show ?thesis using n two [of "n div 10"] by (simp add: nat_digits.simps [of n])
qed

lemma byte_digits: "length (nat_digits (unat (b :: u8))) \<le> 3"
  using unsigned_less [of b, where 'a = nat] by (intro nat_digits_short) simp

lemma inet_ntoa_length: "length (inet_ntoa a) \<le> 15"
  using byte_digits [of "fst a"] byte_digits [of "fst (snd a)"] byte_digits [of "fst (snd (snd a))"]
    byte_digits [of "snd (snd (snd a))"]
  by (simp add: inet_ntoa_def split_def)

lemma dec_value_nat_digits: "dec_value (nat_digits n) = int n"
  using dec_value_int_digits [of "int n"] by (simp add: int_digits_def)

lemma inet_ntoa_parse:
  "map dec_value (split_on ''.'' (inet_ntoa (b1, b2, b3, b4))) = map (int \<circ> unat) [b1, b2, b3, b4]"
proof -
  have "split_on ''.'' (inet_ntoa (b1, b2, b3, b4)) =
      [nat_digits (unat b1), nat_digits (unat b2), nat_digits (unat b3), nat_digits (unat b4)]"
    unfolding inet_ntoa_def prod.case by (rule split_join) (simp_all add: nat_digits_no_dot)
  then show ?thesis by (simp add: dec_value_nat_digits)
qed

lemma range_loop_run:
  "range_loop gni hn as out =
     (map (\<lambda>_. Fault (OutOfBounds ''hostname'')) (filter (\<lambda>a. fst (gni a) = 0) as),
      Inr (if as = [] then hn else Literal,
           out @ map (\<lambda>a. ''hostname: '' @ snd (gni a) @ [CHR 0x0A]) (filter (\<lambda>a. fst (gni a) = 0) as)))"
  by (induction as arbitrary: hn out) (simp_all add: ret_def split_def Let_def run_simps)

lemma first_line_nl: "CHR 0x0A \<notin> set l \<Longrightarrow> first_line (l @ CHR 0x0A # r) = l @ [CHR 0x0A]"
  by (auto simp: first_line_def takeWhile_append dropWhile_append)

lemma first_line_end: "CHR 0x0A \<notin> set l \<Longrightarrow> first_line l = l"
proof -
  assume "CHR 0x0A \<notin> set l"
  then have "\<forall>c \<in> set l. c \<noteq> CHR 0x0A" by blast
  then show ?thesis by (simp add: first_line_def takeWhile_eq_all_conv [THEN iffD2] dropWhile_eq_Nil_conv [THEN iffD2])
qed

section \<open>The properties\<close>

text \<open>\<^verbatim>\<open>get_ip\<close> with a buffer of 16 bytes or more (the program has 100) never overruns it: it fails with -1 when the
  name does not resolve or has no address, and otherwise returns 0 and stores the first address in dotted notation,
  from which the four bytes can be read back.\<close>

theorem get_ip_first_address:
  assumes "16 \<le> cap"
  shows "get_ip gethostbyname cap hostname =
      ret (case gethostbyname hostname of
             None \<Rightarrow> (- 1, None)
           | Some he \<Rightarrow> if h_addr_list he = [] then (- 1, None) else (0, Some (inet_ntoa (hd (h_addr_list he))))) \<and>
     map dec_value (split_on ''.'' (inet_ntoa (b1, b2, b3, b4))) = map (int \<circ> unat) [b1, b2, b3, b4]"
proof
  have "length (inet_ntoa a) < cap" for a using inet_ntoa_length [of a] assms by simp
  then show "get_ip gethostbyname cap hostname =
      ret (case gethostbyname hostname of
             None \<Rightarrow> (- 1, None)
           | Some he \<Rightarrow> if h_addr_list he = [] then (- 1, None) else (0, Some (inet_ntoa (hd (h_addr_list he)))))"
    by (auto simp: get_ip_def split: option.splits list.splits)
  show "map dec_value (split_on ''.'' (inet_ntoa (b1, b2, b3, b4))) = map (int \<circ> unat) [b1, b2, b3, b4]"
    by (rule inet_ntoa_parse)
qed

theorem get_ip_first_address_witness:
  "get_ip (\<lambda>_. Some \<lparr>h_name = ''localhost'', h_addr_list = [(127, 0, 0, 1)]\<rparr>) 100 ''localhost'' =
    ret (0, Some (inet_ntoa (127, 0, 0, 1))) \<and>
   map dec_value (split_on ''.'' (inet_ntoa (127, 0, 0, 1))) = map (int \<circ> unat) [127, 0, 0, 1 :: u8]"
  using get_ip_first_address [of 100 "\<lambda>_. Some \<lparr>h_name = ''localhost'', h_addr_list = [(127, 0, 0, 1)]\<rparr>" "''localhost''" 127 0 0 1]
  by simp

text \<open>\<^verbatim>\<open>ip2Domain\<close> answers 0 and prints a name exactly if the text is an IPv4 address with a name, or else, unless
  the first conversion reports an error, an IPv6 address with a name; in all other cases it answers -1 and prints
  nothing. It logs no fault.\<close>

theorem ip2Domain_answers:
  "ip2Domain r ip =
     (if fst (pton4 r ip) = 1 \<and> name4 r (snd (pton4 r ip)) \<noteq> None
      then ret (0, host_line (the (name4 r (snd (pton4 r ip)))))
      else if fst (pton4 r ip) \<noteq> - 1 \<and> fst (pton6 r ip) = 1 \<and> name6 r (snd (pton6 r ip)) \<noteq> None
      then ret (0, host_line (the (name6 r (snd (pton6 r ip)))))
      else ret (- 1, []))"
  by (auto simp: ip2Domain_def Let_def split_def split: option.splits)

text \<open>\<^verbatim>\<open>domain2IpRange\<close> answers -1 when the domain does not resolve. Whenever it does, to at least one address, the
  function writes every name it gets into the string literal \<^verbatim>\<open>""\<close> and then hands that literal to \<^verbatim>\<open>free\<close>: it
  never returns 0 for a domain that has an address.\<close>

theorem domain2IpRange_frees_literal:
  "domain2IpRange gai gni domain =
     (if fst (gai domain) \<noteq> 0 then ([Call ''free hostname''], Inr (- 1, []))
      else if snd (gai domain) = [] then ([Call ''free hostname''], Inr (0, []))
      else (map (\<lambda>_. Fault (OutOfBounds ''hostname'')) (filter (\<lambda>a. fst (gni a) = 0) (snd (gai domain))),
            Inl (Crash (BadPointer ''hostname''))))"
  by (simp add: domain2IpRange_def range_loop_run split_def Let_def run_simps ret_def halt_def seq_pair)

text \<open>\<^verbatim>\<open>get_absolute_path\<close> on every path: the answer of \<^verbatim>\<open>realpath\<close>; else the first line of the shell command
  \<^verbatim>\<open>which\<close> followed by the argument as it is, without its line feed (or without its last byte when it has none);
  else the first four bytes of the link's target followed by what the buffer happens to hold; else the argument, with
  the flag set. When the command cannot be started the function crashes.\<close>

theorem get_absolute_path_cases:
  fixes e :: path_env
  assumes "CHR 0x0A \<notin> set l" "is_cstring l" "length l < PATH_MAX"
  shows "(case realpath_of e r of
      Some p \<Rightarrow> get_absolute_path e r = ret (p, False)
    | None \<Rightarrow>
        (popen_out e (''which '' @ r) = None \<longrightarrow>
           get_absolute_path e r = ([Call (''which '' @ r)], Inl (Crash (NullDeref ''fp'')))) \<and>
        (popen_out e (''which '' @ r) = Some (l @ CHR 0x0A # rest) \<longrightarrow>
           get_absolute_path e r = ([Call (''which '' @ r), Call ''pclose'', Call ''free whichcmd''], Inr (l, False))) \<and>
        (popen_out e (''which '' @ r) = Some l \<and> l \<noteq> [] \<longrightarrow>
           get_absolute_path e r = ([Call (''which '' @ r), Call ''pclose'', Call ''free whichcmd''], Inr (butlast l, False))) \<and>
        (popen_out e (''which '' @ r) = Some [] \<longrightarrow>
           get_absolute_path e r =
             (case readlink_of e r of
                Some t \<Rightarrow> ([Call (''which '' @ r), Call ''pclose'', Call ''free whichcmd'', Fault (UninitRead ''abs_path'')],
                  Inr (take 4 t @ buffer_rest e, False))
              | None \<Rightarrow> ([Call (''which '' @ r), Call ''pclose'', Call ''free whichcmd''], Inr (r, True)))))"
  using assms
  by (auto simp: get_absolute_path_def fgets_def first_line_nl first_line_end cstr_of_id is_cstring_def run_simps
      ret_def halt_def seq_pair split: option.splits)

definition sample_paths :: path_env where
  "sample_paths = \<lparr>realpath_of = (\<lambda>_. None),
     popen_out = (\<lambda>c. Some (if c = ''which ls'' then ''/bin/ls'' @ [CHR 0x0A] else if c = ''which vi'' then ''/bin/vi'' else [])),
     readlink_of = (\<lambda>p. if p = ''link'' then Some ''/usr/bin'' else None), buffer_rest = ''##''\<rparr>"

theorem get_absolute_path_cases_witness:
  "get_absolute_path (sample_paths\<lparr>realpath_of := \<lambda>p. Some (CHR ''/'' # p)\<rparr>) ''ls'' = ret (''/ls'', False) \<and>
   get_absolute_path (sample_paths\<lparr>popen_out := \<lambda>_. None\<rparr>) ''ls'' = ([Call ''which ls''], Inl (Crash (NullDeref ''fp''))) \<and>
   get_absolute_path sample_paths ''ls'' = ([Call ''which ls'', Call ''pclose'', Call ''free whichcmd''], Inr (''/bin/ls'', False)) \<and>
   get_absolute_path sample_paths ''vi'' = ([Call ''which vi'', Call ''pclose'', Call ''free whichcmd''], Inr (''/bin/v'', False)) \<and>
   get_absolute_path sample_paths ''link'' =
     ([Call ''which link'', Call ''pclose'', Call ''free whichcmd'', Fault (UninitRead ''abs_path'')], Inr (''/usr##'', False))"
  using get_absolute_path_cases [of "[]" "sample_paths\<lparr>realpath_of := \<lambda>p. Some (CHR ''/'' # p)\<rparr>" "''ls''" "[]"]
    get_absolute_path_cases [of "[]" "sample_paths\<lparr>popen_out := \<lambda>_. None\<rparr>" "''ls''" "[]"]
    get_absolute_path_cases [of "''/bin/ls''" sample_paths "''ls''" "[]"]
    get_absolute_path_cases [of "''/bin/vi''" sample_paths "''vi''" "[]"]
    get_absolute_path_cases [of "[]" sample_paths "''link''" "[]"]
  by (simp add: sample_paths_def is_cstring_def PATH_MAX_def)

end
