(* ===== verification/Old_Programs.thy ===== *)
theory Old_Programs
  imports Server
begin

text \<open>
  Two programs that came before the client and the server: \<^verbatim>\<open>src/client/client.c\<close> and
  \<^verbatim>\<open>src/server/server_socket.c\<close>. The answers of the socket calls are parameters.
\<close>

section \<open>The first client\<close>

text \<open>
  The command line, as in the server, with one byte less for the copy of the directory. The comparisons are
  comparisons of addresses.
\<close>

fun client_args_loop :: "string list \<Rightarrow> nat \<Rightarrow> string \<Rightarrow> cptr \<Rightarrow> (string \<times> cptr) run" where
  "client_args_loop [] option_flag port root_dir = ret (port, root_dir)"
| "client_args_loop (token # ts) option_flag port root_dir =
     (if option_flag \<noteq> 0 then
        if option_flag = 1 then halt (Crash (BadPointer ''port''))
        else if option_flag = 2 then
          seq (guard_bounds ''root_dir'' (length token) (length token)) (client_args_loop ts 0 port (Some token))
        else client_args_loop ts option_flag port root_dir
      else if literal_eq token ''-p'' \<or> literal_eq token ''--port'' then client_args_loop ts 1 port root_dir
      else if literal_eq token ''-r'' \<or> literal_eq token ''--root-dir'' then client_args_loop ts 2 port root_dir
      else client_args_loop ts option_flag port root_dir)"

record connect_try =
  c_sock :: int
  c_connect :: bool
  c_family :: nat

text \<open>The loop over the addresses: the value of \<^verbatim>\<open>connect_sock\<close> and the address it stopped at.\<close>

fun connect_loop :: "connect_try list \<Rightarrow> int \<Rightarrow> (int \<times> connect_try option) run" where
  "connect_loop [] connect_sock = ret (connect_sock, None)"
| "connect_loop (a # as) connect_sock =
     (if c_sock a = - 1 then connect_loop as (- 1)
      else if \<not> c_connect a then seq (emit (Close (c_sock a))) (connect_loop as (c_sock a))
      else ret (c_sock a, Some a))"

text \<open>The offset of the address in the socket address, as in the server.\<close>

definition old_get_in_addr :: "nat \<Rightarrow> nat" where
  "old_get_in_addr sa_family = (if sa_family = 2 then 4 else 8)"

text \<open>
  \<^verbatim>\<open>start_client\<close>; \<open>host\<close> is \<^verbatim>\<open>argv[1]\<close>, which the function uses although it is not in scope there. The result
  is the connected socket.
\<close>

definition start_client :: "bool \<Rightarrow> connect_try list \<Rightarrow> cptr \<Rightarrow> string \<Rightarrow> int run" where
  "start_client getaddrinfo_succeeds addrs host port =
     seq (emit (Call (''getaddrinfo '' @ (case host of Some h \<Rightarrow> h | None \<Rightarrow> []) @ '' '' @ port)))
     (if \<not> getaddrinfo_succeeds then halt (Exit 1)
      else
        bind (connect_loop addrs 0) (\<lambda>(connect_sock, p).
          case p of
            None \<Rightarrow> halt (Exit 1)
          | Some a \<Rightarrow>
              seq (emit (Call (''inet_ntop '' @ nat_digits (old_get_in_addr (c_family a)))))
              (seq (emit (Call ''freeaddrinfo'')) (ret connect_sock))))"

record old_client_env =
  oc_signals :: "int \<Rightarrow> bool"
  oc_argv :: "string list"
  oc_pwd :: cptr
  oc_getaddrinfo :: bool
  oc_addrs :: "connect_try list"

text \<open>
  \<^verbatim>\<open>main\<close>: without a directory on the command line it allocates room for the value of \<^verbatim>\<open>PWD\<close>, copies nothing into it,
  and applies \<^verbatim>\<open>free\<close> to the string of the environment, which was not allocated.
\<close>

definition main_old_client :: "old_client_env \<Rightarrow> int run" where
  "main_old_client e =
     seq (set_sig_handler (oc_signals e))
     (if 4 < length (oc_argv e) then halt (Exit 1)
      else
        bind (client_args_loop (case oc_argv e of [] \<Rightarrow> [] | a # _ \<Rightarrow> split_on '' '' a) 0 ''65501'' None) (\<lambda>(port, root_dir).
        seq
          (if root_dir = None then bind (deref ''dir'' (oc_pwd e)) (\<lambda>dir. halt (Crash (BadPointer ''dir''))) else ret ())
          (start_client (oc_getaddrinfo e) (oc_addrs e) (if 1 < length (oc_argv e) then Some (oc_argv e ! 1) else None) port)))"

definition old_sig_handler :: "int \<Rightarrow> int \<Rightarrow> unit run" where
  "old_sig_handler worker_sock sig =
     (if sig = SIGHUP then seq (emit (Close worker_sock)) (halt (Exit 1))
      else if sig = SIGINT then seq (emit (Close worker_sock)) (halt (Exit 2))
      else if sig = SIGQUIT then seq (emit (Close worker_sock)) (halt (Exit 3))
      else if sig = SIGSEGV then seq (emit (Close worker_sock)) (halt (Exit (- 1)))
      else ret ())"


section \<open>The first server\<close>

text \<open>
  The program waits for one connection, whatever \<^verbatim>\<open>socket\<close>, \<^verbatim>\<open>bind\<close> and \<^verbatim>\<open>listen\<close> answer, and sends thirteen bytes.
  On a descriptor that is not open \<^verbatim>\<open>send\<close> fails and nothing is sent. The result is what it prints and its status.
\<close>

record hello_env =
  hs_listen :: int
  hs_accept :: int

definition main_server_socket :: "hello_env \<Rightarrow> (string \<times> int) run" where
  "main_server_socket e =
     (let line = (if hs_listen e = 0 then ''Listening'' else ''Error'') @ [CHR 0x0A];
          buffer = ''Hello World'' @ [CHR 0x0A] in
      seq (emit (Call ''socket''))
      (seq (emit (Call ''bind 127.0.0.1:7891''))
      (seq (emit (Call ''listen 5''))
      (seq (emit (Call ''accept''))
      (seq (guard_bounds ''buffer'' 1024 (length buffer))
      (seq (if 0 \<le> hs_accept e then emit (SockWrite (hs_accept e) (take 13 (buffer @ [NUL]))) else ret ())
       (ret (line, 0))))))))"


section \<open>Lemmas\<close>

lemma client_args_loop_ignores: "client_args_loop ts 0 port root = ret (port, root)"
  by (induction ts) (simp_all add: literal_eq_def)

text \<open>The loop is the one of the server with \<^verbatim>\<open>connect\<close> in the place of \<^verbatim>\<open>bind\<close> and no options to set.\<close>

definition as_bind :: "connect_try \<Rightarrow> addr_try" where
  "as_bind a = \<lparr>try_sock = c_sock a, try_setsockopt = True, try_bind = c_connect a\<rparr>"

lemma connect_loop_bind_loop:
  "bind_loop (map as_bind as) s = bind (connect_loop as s) (\<lambda>(fd, p). ret (fd, p \<noteq> None))"
  by (induction as arbitrary: s) (auto simp: as_bind_def seq_def bind_assoc)

definition refused :: "connect_try \<Rightarrow> bool" where
  "refused a \<longleftrightarrow> c_sock a = - 1 \<or> \<not> c_connect a"

interpretation connect_walk: address_walk connect_loop c_sock refused "\<lambda>a. \<not> refused a" Some None
  by unfold_locales (auto simp: refused_def)

lemma connect_closed: "connect_walk.closed bad = opened_in_vain (map as_bind bad)"
  by (simp add: connect_walk.closed_def opened_in_vain_def as_bind_def filter_map comp_def)


section \<open>The properties\<close>

text \<open>\<^verbatim>\<open>start_client\<close> connects to the first address that accepts: with the addresses before it refused (no socket, or a
  socket that does not connect) it returns the socket of that address, having closed exactly the sockets opened before;
  when all are refused it closes them all and exits with status 1. Its loop makes the same steps as the binding loop of the
  server.\<close>

theorem start_client_connects:
  assumes bad: "list_all refused bad"
  shows "(\<not> refused a \<longrightarrow>
      start_client True (bad @ a # rest) host port =
        (Call (''getaddrinfo '' @ (case host of Some h \<Rightarrow> h | None \<Rightarrow> []) @ '' '' @ port) #
           opened_in_vain (map as_bind bad) @
           [Call (''inet_ntop '' @ nat_digits (old_get_in_addr (c_family a))), Call ''freeaddrinfo''],
         Inr (c_sock a))) \<and>
     start_client True bad host port =
       (Call (''getaddrinfo '' @ (case host of Some h \<Rightarrow> h | None \<Rightarrow> []) @ '' '' @ port) #
          opened_in_vain (map as_bind bad), Inl (Exit 1)) \<and>
     bind_loop (map as_bind as) s = bind (connect_loop as s) (\<lambda>(fd, p). ret (fd, p \<noteq> None))"
  by (auto simp: start_client_def connect_walk.walk_found [OF bad] connect_walk.walk_nothing [OF bad] connect_closed
      connect_loop_bind_loop seq_emit bind_pair ret_def)

definition no_answer :: connect_try where "no_answer = \<lparr>c_sock = 4, c_connect = False, c_family = 10\<rparr>"
definition answer :: connect_try where "answer = \<lparr>c_sock = 5, c_connect = True, c_family = 2\<rparr>"

theorem start_client_connects_witness:
  "snd (start_client True [no_answer, answer] (Some ''localhost'') ''65501'') = Inr 5 \<and>
   snd (start_client True [no_answer] (Some ''localhost'') ''65501'') = Inl (Exit 1)"
  using start_client_connects [of "[no_answer]" answer "[]" "Some ''localhost''" "''65501''" "[]" 0]
  by (simp add: refused_def no_answer_def answer_def)

text \<open>The first client never gets to connect: with handlers installed and at most four arguments it stops before
  \<^verbatim>\<open>start_client\<close>, either because \<^verbatim>\<open>PWD\<close> is not set or because it frees the string of the environment. No socket is opened.\<close>

theorem main_old_client_never_connects:
  assumes "\<forall>n. oc_signals e n" "length (oc_argv e) \<le> 4"
  shows "snd (main_old_client e) = Inl (Crash (if oc_pwd e = None then NullDeref ''dir'' else BadPointer ''dir''))"
    and "fst (main_old_client e) = fst (set_sig_handler (oc_signals e))"
  using assms
  by (auto simp: main_old_client_def client_args_loop_ignores set_sig_handler_def install_def seq_def bind_def emit_def
      ret_def halt_def deref_def split: option.splits)

theorem main_old_client_never_connects_witness:
  "snd (main_old_client \<lparr>oc_signals = (\<lambda>_. True), oc_argv = [''client'', ''localhost''], oc_pwd = Some ''/root'',
     oc_getaddrinfo = True, oc_addrs = [answer]\<rparr>) = Inl (Crash (BadPointer ''dir''))"
  using main_old_client_never_connects(1)
    [of "\<lparr>oc_signals = (\<lambda>_. True), oc_argv = [''client'', ''localhost''], oc_pwd = Some ''/root'',
     oc_getaddrinfo = True, oc_addrs = [answer]\<rparr>"]
  by simp

text \<open>The first server sends its greeting with the terminating NUL, thirteen bytes, and only to a connection that was
  accepted.\<close>

theorem main_server_socket_greets:
  "sent fd (fst (main_server_socket e)) =
     (if 0 \<le> hs_accept e \<and> fd = hs_accept e then ''Hello World'' @ [CHR 0x0A, NUL] else [])"
  "faults (main_server_socket e) = []"
  by (auto simp: main_server_socket_def Let_def sent_def faults_def seq_def bind_def emit_def ret_def)

end
