(* ===== verification/Test_Programs.thy ===== *)
theory Test_Programs
  imports Server Vectors Database
begin

text \<open>
  The test programs of \<^verbatim>\<open>src/test\<close>, as clients of the components they exercise: \<^verbatim>\<open>vector-test.c\<close>,
  \<^verbatim>\<open>test_response.c\<close>, \<^verbatim>\<open>test_fawkes_proto.c\<close>, \<^verbatim>\<open>db_test.c\<close>, \<^verbatim>\<open>oop_test.c\<close> and \<^verbatim>\<open>nullptrs.c\<close>. The theorems say what
  a run of each program shows about its component.
\<close>

section \<open>Vectors\<close>

text \<open>The loop \<^verbatim>\<open>for (i = 200; i > -50; i--)\<close>, and the program, whose result is the value it prints.\<close>

function append_down :: "vector \<Rightarrow> int \<Rightarrow> vector run" where
  "append_down v i = (if - 50 < i then bind (int_vector_append v i) (\<lambda>v'. append_down v' (i - 1)) else ret v)"
  by pat_completeness auto
termination
  by (relation "measure (\<lambda>(v, i). nat (i + 50))") auto

declare append_down.simps [simp del]

definition main_vector_test :: "int run" where
  "main_vector_test =
     bind (append_down (int_vector_init 1000) 200) (\<lambda>v.
     bind (int_vector_set v 4452 21312984) (\<lambda>v'.
     bind (int_vector_get v' 27) (\<lambda>x.
     seq (int_vector_free v') (ret x))))"


section \<open>Responses\<close>

text \<open>The lengths and the response that are printed. The second argument of \<^verbatim>\<open>createReponse\<close> ends at its first NUL.\<close>

definition main_test_response :: "(int list \<times> string) run" where
  "main_test_response =
     bind (getResponseLen (Some ok_response)) (\<lambda>n1.
     bind (getResponseLen (Some bad_request_response)) (\<lambda>n2.
     bind (getResponseLen (Some bad_method_response_template)) (\<lambda>n3.
     bind (createReponse (Some bad_method_response_template) (Some ''POST'')) (\<lambda>resp.
     bind (getResponseLen (Some resp)) (\<lambda>n4.
     seq (emit (Call ''free(resp)'')) (ret ([n1, n2, n3, n4], resp)))))))"


section \<open>The information byte\<close>

unbundle bit_operations_syntax

text \<open>
  \<open>entered\<close> is what \<^verbatim>\<open>scanf\<close> stores, if it stores anything; \<open>junk\<close> is what the variable holds otherwise. The
  result is what the calls of \<^verbatim>\<open>printByteDebug\<close> print and the byte at the end.
\<close>

definition main_test_fawkes_proto :: "u8 \<Rightarrow> u8 option \<Rightarrow> (string list \<times> u8) run" where
  "main_test_fawkes_proto junk entered =
     (let info0 = (case entered of Some b \<Rightarrow> b | None \<Rightarrow> junk);
          info1 = (info0 AND 252) OR (0 AND NOT 252);
          info2 = (info1 AND 243) OR (push_bit 2 1 AND NOT 243);
          info3 = (info2 AND 15) OR (push_bit 4 1 AND NOT 15) in
      seq (if entered = None then emit (Fault (UninitRead ''info'')) else ret ())
      (ret (map printByteDebug [info0, info1, info2, info3], info3)))"


section \<open>The database\<close>

text \<open>Reading a string: through a pointer into a result that was cleared, the storage is used after its release.\<close>

definition read_ptr :: "dbptr \<Rightarrow> string db" where
  "read_ptr p = (\<lambda>s.
     seq (if dangling s p then emit (Fault (UseAfterFree ''res'')) else ret ())
     (case p of Lit v \<Rightarrow> ret (v, s) | InResult _ v \<Rightarrow> ret (v, s) | NullPtr \<Rightarrow> halt (Crash (NullDeref ''strcmp''))))"

definition fails :: "dbptr \<Rightarrow> bool db" where
  "fails p = dbbind (read_ptr p) (\<lambda>v. dbret (strcmp v ''FAIL'' = 0))"

text \<open>\<^verbatim>\<open>table[0]\<close> of the local array that a failure returns, or of an empty allocation, is not there to be read.\<close>

definition first_table :: "table_list \<Rightarrow> dbptr db" where
  "first_table t =
     (case t of
        LocalArray \<Rightarrow> dblift (halt (Crash (UseAfterFree ''table'')))
      | Rows ps \<Rightarrow> (case ps of [] \<Rightarrow> dblift (halt (Crash (BadPointer ''table''))) | p # _ \<Rightarrow> dbret p))"

definition first_user :: "(dbptr \<times> dbptr) list \<Rightarrow> dbptr db" where
  "first_user us = (case us of [] \<Rightarrow> dblift (halt (Crash (BadPointer ''rows''))) | (u, _) # _ \<Rightarrow> dbret u)"

text \<open>The tests \<^verbatim>\<open>if (authenticateUser(...) != 0) return -1\<close> and \<^verbatim>\<open>if (authenticateUser(...) == 0) return -1\<close>.\<close>

definition expect_auth :: "libpq \<Rightarrow> string \<Rightarrow> string \<Rightarrow> int db \<Rightarrow> int db" where
  "expect_auth pq user pw k = dbbind (authenticateUser pq user pw) (\<lambda>st. if st \<noteq> 0 then dbret (- 1) else k)"

definition expect_refusal :: "libpq \<Rightarrow> string \<Rightarrow> string \<Rightarrow> int db \<Rightarrow> int db" where
  "expect_refusal pq user pw k = dbbind (authenticateUser pq user pw) (\<lambda>st. if st = 0 then dbret (- 1) else k)"

definition main_db_test :: "libpq \<Rightarrow> int db" where
  "main_db_test pq =
     dbbind (createTable pq) (\<lambda>status.
       if status \<noteq> 0 then dbret (- 1)
       else
         dbbind (getVersion pq) (\<lambda>ver.
         dbbind (fails ver) (\<lambda>bad.
           if bad then dbret (- 1)
           else
             dbbind (getTables pq) (\<lambda>t.
             dbbind (first_table t) (\<lambda>name.
             dbbind (fails name) (\<lambda>bad.
               if bad then dbret (- 1)
               else
                 dbbind (getTableRows pq) (\<lambda>us.
                 dbbind (first_user us) (\<lambda>u.
                 dbbind (fails u) (\<lambda>bad.
                   if bad then dbret (- 1)
                   else
                     expect_auth pq ''foo'' ''bar''
                     (expect_auth pq ''foofoo'' ''extrabar''
                     (expect_auth pq ''TheFooestF00'' ''H1gh3stBar''
                     (expect_refusal pq ''foo'' ''wrong''
                     (expect_refusal pq ''foofoo'' ''wrong''
                     (expect_refusal pq ''TheFooestF00'' ''wrong'' (dbret 0)))))))))))))))"

section \<open>Null pointers\<close>

text \<open>
  \<^verbatim>\<open>nullptrs.c\<close>: four pointers are compared with NULL. The first is not initialised; \<open>junk_null\<close> is whether it
  happens to be NULL. The lines printed are events.
\<close>

definition null_line :: "string \<Rightarrow> bool \<Rightarrow> unit run" where
  "null_line name is_null = emit (Call (name @ (if is_null then '' is null'' else '' is not null'') @ [CHR 0x0A]))"

definition main_nullptrs :: "bool \<Rightarrow> unit run" where
  "main_nullptrs junk_null =
     (let ptr2 = (None :: cptr); ptr3 = (None :: cptr); ptr4 = (None :: cptr) in
      seq (emit (Fault (UninitRead ''ptr1'')))
      (seq (null_line ''ptr1'' junk_null)
      (seq (null_line ''ptr2'' (ptr2 = None))
      (seq (null_line ''ptr3'' (ptr3 = None))
      (seq (null_line ''ptr4'' (ptr4 = None))
      (seq (emit (Call ''done'')) (halt (Exit 0))))))))"


section \<open>What the programs show\<close>

text \<open>The values of the loop, in the order they are appended.\<close>

function countdown :: "int \<Rightarrow> int list" where
  "countdown i = (if - 50 < i then i # countdown (i - 1) else [])"
  by pat_completeness auto
termination
  by (relation "measure (\<lambda>i. nat (i + 50))") auto

declare countdown.simps [simp del]

lemma append_down_all: "append_down v i = int_vec.append_all v (countdown i)"
proof (induction i arbitrary: v rule: countdown.induct)
  case (1 i)
  then show ?case by (simp add: append_down.simps [of v i] countdown.simps [of i])
qed

lemma countdown_nth: "n < length (countdown i) \<Longrightarrow> countdown i ! n = i - int n"
proof (induction i arbitrary: n rule: countdown.induct)
  case (1 i)
  then show ?case by (cases n) (auto simp: countdown.simps [of i] split: if_splits)
qed

lemma countdown_length: "length (countdown i) = nat (i + 50)"
proof (induction i rule: countdown.induct)
  case (1 i)
  then show ?case by (cases "- 50 < i") (simp_all add: countdown.simps [of i])
qed

text \<open>The vector program runs without a fault and prints 173 for the value at index 27: the loop appends 250 values, the
  assignment beyond the end fills the gap, and element 27 is still the 28th value of the loop.\<close>

theorem main_vector_test_prints:
  "main_vector_test = ([Call ''free(vector->data)''], Inr 173)"
proof -
  have ini: "vec_ok (int_vector_init 1000)" "elems (int_vector_init 1000) = []"
    using int_vec.init_law [of 1000] by simp_all
  obtain v where v: "append_down (int_vector_init 1000) 200 = ret v" "vec_ok v" "elems v = countdown 200"
    using int_vec.append_all_law [OF ini(1), of "countdown 200"] ini(2) by (auto simp: append_down_all countdown_length)
  obtain v' where v': "int_vector_set v 4452 21312984 = ret v'" "int_vector_get v' 27 = int_vector_get v 27"
    using int_vec.set_get [OF v(2), of 4452 27 21312984] v(3) by (auto simp: countdown_length)
  have "int_vector_get v 27 = ret 173"
    using int_vec.get_law [OF v(2), of 27] v(3) by (simp add: countdown_length countdown_nth)
  then show ?thesis using v(1) v' by (simp add: main_vector_test_def int_vector_free_def seq_emit)
qed

text \<open>The program of the responses returns without a fault and prints the lengths 44, 168 and 194 of the two responses and
  the template, and 196 for the filled-in template: four bytes of argument in the place of the two of the conversion.\<close>

theorem main_test_response_prints:
  "\<exists>resp. main_test_response = ([Call ''free(resp)''], Inr ([44, 168, 194, 196], resp)) \<and> sublist ''The method POST is not implemented'' resp"
proof -
  have len: "getResponseLen (Some r) = ret (int (length r))" if "length r < 2 ^ 31" for r
    using sint32_nat [OF that] by (simp add: getResponseLen_def)
  have l: "length ok_response = 44" "length bad_request_response = 168" "length bad_method_response_template = 194"
    by (simp_all add: ok_response_def bad_request_response_def bad_method_response_template_def crlf_def)
  let ?p = "''HTTP/1.0 501 Method Not Implemented'' @ crlf @ ''Content-type: text/html'' @ crlf @ crlf @
       ''<html>'' @ crlf @ '' <body>'' @ crlf @ ''  <h1>Method Not Implemented</h1>'' @ crlf @ ''  <p>''"
  let ?resp = "?p @ ''The method POST is not implemented'' @ '' by this server.</p>'' @ crlf @ '' </body>'' @ crlf @ ''</html>'' @ crlf"
  have r: "createReponse (Some bad_method_response_template) (Some ''POST'') = ret ?resp"
    using templates_fill [of "''POST''"] by simp
  have "length ?resp = 196" by (simp add: crlf_def)
  then have g4: "getResponseLen (Some ?resp) = ret 196" using len [of ?resp] by (simp only: ) simp
  have g: "getResponseLen (Some ok_response) = ret 44" "getResponseLen (Some bad_request_response) = ret 168"
    "getResponseLen (Some bad_method_response_template) = ret 194"
    using len [of ok_response] len [of bad_request_response] len [of bad_method_response_template] l by simp_all
  have "main_test_response = ([Call ''free(resp)''], Inr ([44, 168, 194, 196], ?resp))"
    unfolding main_test_response_def r g bind_ret g4 seq_emit fst_snd_ret ..
  then show ?thesis unfolding sublist_def by blast
qed

text \<open>Whatever byte is entered, the masks written out in the program of the information byte leave a byte that the
  decoders of the protocol header read as method GET, protocol HTTP/1.0 and a request that does not meet the
  requirements.\<close>

theorem main_test_fawkes_proto_byte:
  "\<exists>out b'. main_test_fawkes_proto junk (Some b) = ret (out, b') \<and>
     decodeMethod b' = 1 \<and> decodeProto b' = 1 \<and> decodeReqmts b' = - 1 \<and>
     encodeReqmts b' \<noteq> b' \<and> hd out = printByteDebug b"
proof -
  let ?b = "put_method (put_proto (put_reqmts b 0) 1) 1"
  have m: "get_method ?b = 1" "get_proto ?b = 1" "get_reqmts ?b = 0"
    by (simp_all add: proto_field.get_put_small method_field.get_put_small reqmts_field.get_put_small
        proto_method.frame1 method_reqmts.frame2 proto_reqmts.frame2)
  have d: "decodeMethod ?b = 1" "decodeProto ?b = 1" "decodeReqmts ?b = - 1"
    by (simp_all only: decodeMethod_def decodeProto_def decodeReqmts_def m) simp_all
  moreover have "encodeReqmts ?b \<noteq> ?b"
  proof
    assume "encodeReqmts ?b = ?b"
    then have "decodeReqmts (encodeReqmts ?b) = decodeReqmts ?b" by (rule arg_cong)
    then show False using d unfolding decodeReqmts_encode by simp
  qed
  moreover have "main_test_fawkes_proto junk (Some b) =
      ret (map printByteDebug [b, put_reqmts b 0, put_proto (put_reqmts b 0) 1, ?b], ?b)"
    by (simp add: main_test_fawkes_proto_def Let_def put_method_def put_proto_def put_reqmts_def)
  ultimately show ?thesis by (intro exI conjI) (assumption | simp)+
qed

section \<open>The run of the database test\<close>

text \<open>Total correctness of a piece of database code: from a well-formed state it returns, to one.\<close>

definition db_total :: "'a db \<Rightarrow> ('a \<Rightarrow> bool) \<Rightarrow> bool" where
  "db_total m P \<longleftrightarrow> (\<forall>s. db_wf s \<longrightarrow> (\<exists>x s'. snd (m s) = Inr (x, s') \<and> db_wf s' \<and> P x))"

lemma db_total_ret: "P x \<Longrightarrow> db_total (dbret x) P"
  by (simp add: db_total_def dbret_def)

lemma db_total_bind:
  assumes "db_total m P" "\<And>x. P x \<Longrightarrow> db_total (k x) Q"
  shows "db_total (dbbind m k) Q"
  unfolding db_total_def
proof (intro allI impI)
  fix s assume "db_wf s"
  with assms(1) obtain x s' where x: "snd (m s) = Inr (x, s')" "db_wf s'" "P x" by (auto simp: db_total_def)
  from assms(2) [OF x(3)] x(2) obtain y s'' where "snd (k x s') = Inr (y, s'')" "db_wf s''" "Q y"
    unfolding db_total_def by blast
  with x show "\<exists>y s''. snd (dbbind m k s) = Inr (y, s'') \<and> db_wf s'' \<and> Q y" by (simp add: dbbind_def bind_def)
qed

text \<open>What the test expects of the server: it accepts the statements that fill the table, and answers the queries.\<close>

definition answers :: "libpq \<Rightarrow> string \<Rightarrow> (string list list \<Rightarrow> bool) \<Rightarrow> bool" where
  "answers pq q R \<longleftrightarrow> (\<forall>n. tuples_ok (exec pq n q) \<and> R (rows (exec pq n q)))"

definition starts_with :: "nat \<Rightarrow> string list list \<Rightarrow> bool" where
  "starts_with n rs \<longleftrightarrow> (\<forall>r \<in> set rs. n \<le> length r) \<and> rs \<noteq> [] \<and> is_cstring (rs ! 0 ! 0) \<and> rs ! 0 ! 0 \<noteq> ''FAIL''"

definition serves_users :: "libpq \<Rightarrow> bool" where
  "serves_users pq \<longleftrightarrow>
     (\<forall>n. conn_ok pq n) \<and> (\<forall>n. \<forall>q \<in> set create_statements. command_ok (exec pq n q)) \<and>
     answers pq ''SELECT VERSION()'' (starts_with 1) \<and> answers pq tables_query (starts_with 1) \<and>
     answers pq ''SELECT * FROM Users'' (starts_with 2) \<and>
     answers pq (auth_statement @ ''foo'' @ [CHR 0x27] @ '';'') (\<lambda>rs. rs = [[''bar'']]) \<and>
     answers pq (auth_statement @ ''foofoo'' @ [CHR 0x27] @ '';'') (\<lambda>rs. rs = [[''extrabar'']]) \<and>
     answers pq (auth_statement @ ''TheFooestF00'' @ [CHR 0x27] @ '';'') (\<lambda>rs. rs = [[''H1gh3stBar'']])"

definition not_fail :: "dbptr \<Rightarrow> bool" where
  "not_fail p \<longleftrightarrow> (\<exists>r v. p = InResult r v \<and> is_cstring v \<and> v \<noteq> ''FAIL'')"

lemma fails_total: "not_fail p \<Longrightarrow> db_total (fails p) (\<lambda>b. \<not> b)"
proof -
  assume "not_fail p"
  then obtain r v where p: "p = InResult r v" "is_cstring v" "v \<noteq> ''FAIL''" by (auto simp: not_fail_def)
  then have "strcmp v ''FAIL'' \<noteq> 0" using strcmp_eq_0 [of v "''FAIL''"] by (simp add: is_cstring_def)
  then show ?thesis using p(1) by (auto simp: db_total_def fails_def read_ptr_def dbbind_def dbret_def seq_emit bind_pair bind_def)
qed

lemma createTable_total:
  assumes "serves_users pq"
  shows "db_total (createTable pq) (\<lambda>st. st = 0)"
  unfolding db_total_def
proof (intro allI impI)
  fix s assume s: "db_wf s"
  have ok: "\<forall>i < length create_statements. command_ok (exec pq (n + i) (create_statements ! i))" for n
    using assms by (auto simp: serves_users_def)
  from createTable_run [OF s, of pq] assms obtain l s' where r: "createTable pq s = (l, Inr (0, s'))"
    using ok by (auto simp: serves_users_def)
  moreover have "db_keeps (createTable pq)" unfolding createTable_def by (intro db_intros)
  ultimately have "db_wf s'" using s by (auto simp: db_keeps_def)
  with r show "\<exists>x s'. snd (createTable pq s) = Inr (x, s') \<and> db_wf s' \<and> x = 0" by auto
qed

lemma getVersion_total:
  assumes "serves_users pq"
  shows "db_total (getVersion pq) not_fail"
  unfolding db_total_def
proof (intro allI impI)
  fix s assume s: "db_wf s"
  let ?r = "exec pq (length (results s)) ''SELECT VERSION()''"
  have a: "conn_ok pq (next_conn s)" "tuples_ok ?r" "starts_with 1 (rows ?r)"
    using assms by (simp_all add: serves_users_def answers_def)
  then have r0: "0 < length (rows ?r)" "0 < length (rows ?r ! 0)"
    by (auto simp: starts_with_def Suc_le_eq)
  obtain s' where v: "snd (getVersion pq s) = Inr (InResult (length (results s)) (rows ?r ! 0 ! 0), s')"
    using a r0 by (simp add: getVersion_def db_defs seq_emit bind_pair)
  then have "db_wf s'" using db_keeps_functions(1) [of pq] s unfolding db_keeps_def by blast
  with v a(3) show "\<exists>x s'. snd (getVersion pq s) = Inr (x, s') \<and> db_wf s' \<and> not_fail x"
    by (auto simp: not_fail_def starts_with_def)
qed

lemma get_column_run:
  assumes "r \<in> set (live_results s)" "\<forall>i \<in> set is. i < length (rows (results s ! r)) \<and> 0 < length (rows (results s ! r) ! i)"
  shows "get_column r is s = ret (map (\<lambda>i. InResult r (rows (results s ! r) ! i ! 0)) is, s)"
  using assms(2)
proof (induction "is")
  case (Cons i js)
  then have "0 < length (rows (results s ! r) ! i)" "i < length (rows (results s ! r))" by auto
  with Cons assms(1) show ?case by (simp add: db_defs)
qed (simp add: db_defs)

lemma getTables_total:
  assumes "serves_users pq"
  shows "db_total (getTables pq) (\<lambda>t. \<exists>p ps. t = Rows (p # ps) \<and> not_fail p)"
  unfolding db_total_def
proof (intro allI impI)
  fix s assume s: "db_wf s"
  let ?k = "length (results s)" let ?r = "exec pq ?k tables_query"
  have a: "conn_ok pq (next_conn s)" "tuples_ok ?r" "starts_with 1 (rows ?r)"
    using assms by (simp_all add: serves_users_def answers_def)
  let ?s1 = "s\<lparr>next_conn := Suc (next_conn s), live_conns := next_conn s # live_conns s, results := results s @ [?r],
    live_results := ?k # live_results s\<rparr>"
  let ?n = "length (rows ?r)"
  have "get_column ?k [0..<?n] ?s1 = ret (map (\<lambda>i. InResult ?k (rows ?r ! i ! 0)) [0..<?n], ?s1)"
    using get_column_run [of ?k ?s1 "[0..<?n]"] a(3) by (auto simp: starts_with_def Suc_le_eq)
  then obtain s' where v: "snd (getTables pq s) = Inr (Rows (map (\<lambda>i. InResult ?k (rows ?r ! i ! 0)) [0..<?n]), s')"
    using a by (simp add: getTables_def db_defs seq_emit bind_pair)
  have "db_keeps (getTables pq)" unfolding getTables_def by (intro db_intros)
  with v s have "db_wf s'" unfolding db_keeps_def by blast
  moreover have "[0..<?n] = 0 # [1..<?n]" using a(3) by (simp add: upt_conv_Cons starts_with_def)
  ultimately show "\<exists>t s'. snd (getTables pq s) = Inr (t, s') \<and> db_wf s' \<and> (\<exists>p ps. t = Rows (p # ps) \<and> not_fail p)"
    using v a(3) by (auto simp: not_fail_def starts_with_def)
qed

lemma getTableRows_total:
  assumes "serves_users pq"
  shows "db_total (getTableRows pq) (\<lambda>us. \<exists>p q us'. us = (p, q) # us' \<and> not_fail p)"
  unfolding db_total_def
proof (intro allI impI)
  fix s assume s: "db_wf s"
  let ?k = "length (results s)" let ?r = "exec pq ?k ''SELECT * FROM Users''"
  have a: "conn_ok pq (next_conn s)" "tuples_ok ?r" "starts_with 2 (rows ?r)"
    using assms by (simp_all add: serves_users_def answers_def)
  let ?s1 = "s\<lparr>next_conn := Suc (next_conn s), live_conns := next_conn s # live_conns s, results := results s @ [?r],
    live_results := ?k # live_results s\<rparr>"
  let ?n = "length (rows ?r)"
  let ?vs = "map (\<lambda>i. (InResult ?k (rows ?r ! i ! 0), InResult ?k (rows ?r ! i ! 1))) [0..<?n]"
  obtain l where "get_rows ?n ?k [0..<?n] ?s1 = (l, Inr (?vs, ?s1))"
    using get_rows_run [of ?k ?s1 "[0..<?n]" ?n] a(3) by (auto simp: starts_with_def)
  then obtain s' where v: "snd (getTableRows pq s) = Inr (?vs, s')"
    using a by (simp add: getTableRows_def db_defs seq_emit bind_pair)
  have "db_keeps (getTableRows pq)" unfolding getTableRows_def by (intro db_intros)
  with v s have "db_wf s'" unfolding db_keeps_def by blast
  moreover have "[0..<?n] = 0 # [1..<?n]" using a(3) by (simp add: upt_conv_Cons starts_with_def)
  ultimately show "\<exists>us s'. snd (getTableRows pq s) = Inr (us, s') \<and> db_wf s' \<and> (\<exists>p q us'. us = (p, q) # us' \<and> not_fail p)"
    using v a(3) by (auto simp: not_fail_def starts_with_def)
qed

lemma authenticateUser_total:
  assumes "\<forall>n. conn_ok pq n" "answers pq (auth_statement @ user @ [CHR 0x27] @ '';'') (\<lambda>rs. rs = [[pw]])"
    "is_cstring pw" "is_cstring pass"
  shows "db_total (authenticateUser pq user pass) (\<lambda>st. st = (if pw = pass then 0 else - 1))"
  unfolding db_total_def
proof (intro allI impI)
  fix s assume s: "db_wf s"
  from authenticateUser_run [OF s, of pq pass _ user] assms obtain s' where
    "snd (authenticateUser pq user pass s) = Inr (if pw = pass then 0 else - 1, s')" "same_live s s'"
    by (fastforce simp: answers_def)
  then show "\<exists>x s'. snd (authenticateUser pq user pass s) = Inr (x, s') \<and> db_wf s' \<and> x = (if pw = pass then 0 else - 1)"
    using same_live_wf [OF s] by blast
qed

lemma first_total:
  "\<exists>p ps. t = Rows (p # ps) \<and> not_fail p \<Longrightarrow> db_total (first_table t) not_fail"
  "\<exists>p q us'. us = (p, q) # us' \<and> not_fail p \<Longrightarrow> db_total (first_user us) not_fail"
  by (auto simp: first_table_def first_user_def intro: db_total_ret)

lemma expect_total:
  assumes "\<forall>n. conn_ok pq n" "answers pq (auth_statement @ user @ [CHR 0x27] @ '';'') (\<lambda>rs. rs = [[pw]])"
    "is_cstring pw" "db_total k P"
  shows "db_total (expect_auth pq user pw k) P"
    and "is_cstring other \<Longrightarrow> other \<noteq> pw \<Longrightarrow> db_total (expect_refusal pq user other k) P"
  unfolding expect_auth_def expect_refusal_def
  by (auto intro!: db_total_bind [OF authenticateUser_total [OF assms(1-3)]] assms(3,4))

text \<open>The database test passes: against a server that connects, accepts the five statements, answers the queries for the
  version, the tables and the rows with at least one row whose first value is not ``FAIL'', and answers each of the three
  user queries with that user's password, the program returns 0, having accepted the three right passwords and refused
  the three wrong ones.\<close>

theorem main_db_test_passes:
  assumes "serves_users pq" "db_wf s"
  shows "\<exists>s'. snd (main_db_test pq s) = Inr (0, s') \<and> db_wf s'"
proof -
  have c: "\<forall>n. conn_ok pq n" using assms(1) by (simp add: serves_users_def)
  have u: "answers pq (auth_statement @ ''foo'' @ [CHR 0x27] @ '';'') (\<lambda>rs. rs = [[''bar'']])"
    "answers pq (auth_statement @ ''foofoo'' @ [CHR 0x27] @ '';'') (\<lambda>rs. rs = [[''extrabar'']])"
    "answers pq (auth_statement @ ''TheFooestF00'' @ [CHR 0x27] @ '';'') (\<lambda>rs. rs = [[''H1gh3stBar'']])"
    using assms(1) unfolding serves_users_def by blast+
  have cs: "is_cstring ''bar''" "is_cstring ''extrabar''" "is_cstring ''H1gh3stBar''" "is_cstring ''wrong''"
    by (simp_all add: is_cstring_def)
  let ?Z = "\<lambda>st :: int. st = 0"
  note e1 = expect_total [OF c u(1) cs(1), of _ ?Z] and e2 = expect_total [OF c u(2) cs(2), of _ ?Z]
    and e3 = expect_total [OF c u(3) cs(3), of _ ?Z]
  have "db_total (main_db_test pq) ?Z"
    unfolding main_db_test_def
    by (rule db_total_bind [OF createTable_total [OF assms(1)]], simp, rule db_total_bind [OF getVersion_total [OF assms(1)]],
        rule db_total_bind [OF fails_total], assumption, simp, rule db_total_bind [OF getTables_total [OF assms(1)]],
        rule db_total_bind [OF first_total(1)], assumption, rule db_total_bind [OF fails_total], assumption, simp,
        rule db_total_bind [OF getTableRows_total [OF assms(1)]], rule db_total_bind [OF first_total(2)], assumption,
        rule db_total_bind [OF fails_total], assumption) (simp add: e1 e2 e3 cs db_total_ret)
  then show ?thesis using assms(2) unfolding db_total_def by blast
qed

text \<open>A server with the three users.\<close>

definition user_server :: libpq where
  "user_server = \<lparr>conn_ok = (\<lambda>_. True),
     exec = (\<lambda>_ q. \<lparr>command_ok = True, tuples_ok = True,
       rows = (if q = auth_statement @ ''foo'' @ [CHR 0x27] @ '';'' then [[''bar'']]
               else if q = auth_statement @ ''foofoo'' @ [CHR 0x27] @ '';'' then [[''extrabar'']]
               else if q = auth_statement @ ''TheFooestF00'' @ [CHR 0x27] @ '';'' then [[''H1gh3stBar'']]
               else [[''foo'', ''bar'']]), outside = None\<rparr>)\<rparr>"

theorem main_db_test_passes_witness: "\<exists>s'. snd (main_db_test user_server db_start) = Inr (0, s') \<and> db_wf s'"
proof (rule main_db_test_passes)
  show "serves_users user_server"
    by (simp add: serves_users_def answers_def user_server_def starts_with_def is_cstring_def auth_statement_def tables_query_def)
  show "db_wf db_start" by (simp add: db_wf_def db_start_def)
qed

end
