(* ===== verification/Oop_Test.thy ===== *)
theory Oop_Test
  imports Server Stacks
begin

text \<open>
  \<^verbatim>\<open>src/test/oop_test.c\<close>: the test of the dictionary, with the fill from files that an option asks for, the test of the
  communication classes, the signal handler and the command line. \<open>read_file\<close>, which the program declares and no
  file defines, is a parameter, as are the answers of the system calls.
\<close>

section \<open>The dictionary test\<close>

text \<open>The values stored: strings, and the pointer \<^verbatim>\<open>(void *) 1\<close>.\<close>

datatype test_val = StrVal string | IntPtr int

text \<open>The fill \<^verbatim>\<open>do { --i; setTuple(dp, namesArr[i], stringsArr[i]); } while (i != 0)\<close> and the reads, from \<open>i\<close> on.\<close>

fun fill_loop :: "carr \<Rightarrow> carr \<Rightarrow> nat \<Rightarrow> test_val dict \<Rightarrow> test_val dict run" where
  "fill_loop names strings 0 d = ret d"
| "fill_loop names strings (Suc i) d =
     bind (arr_get ''namesArr'' names i) (\<lambda>k.
     bind (arr_get ''stringsArr'' strings i) (\<lambda>v.
     bind (setTuple d k (map_option StrVal v)) (\<lambda>(st, d'). fill_loop names strings i d')))"

fun read_loop :: "carr \<Rightarrow> nat \<Rightarrow> test_val dict \<Rightarrow> unit run" where
  "read_loop names 0 d = ret ()"
| "read_loop names (Suc i) d =
     bind (arr_get ''namesArr'' names i) (\<lambda>k. bind (getTuple d k) (\<lambda>val. read_loop names i d))"

definition newline :: string where "newline = [CHR 0x0A]"

text \<open>
  The extended part: the status, the dictionary and the two arrays. The test \<^verbatim>\<open>namesArrLen == 0\<close> compares a pointer;
  it never holds.
\<close>

definition extended_tests :: "(string \<Rightarrow> cptr) \<Rightarrow> test_val dict \<Rightarrow> (int \<times> test_val dict) run" where
  "extended_tests read_file d =
     (let namesBuf = read_file ''/CS202/TEMP/src/names.txt''; stringsBuf = read_file ''/CS202/TEMP/src/strings.txt'' in
      bind (strsplit True True namesBuf newline) (\<lambda>(namesArr, n1).
      bind (deref ''namesBuf'' namesBuf) (\<lambda>nb.
      bind (strsplit True True stringsBuf newline) (\<lambda>(stringsArr, n2).
      bind (deref ''stringsBuf'' stringsBuf) (\<lambda>sb.
        let status = (if strtol0 nb = - 1 \<or> strtol0 sb = - 1 then 1 else 0) in
        bind (deref ''namesArr'' namesArr) (\<lambda>names.
        bind (deref ''stringsArr'' stringsArr) (\<lambda>strings.
        bind (fill_loop names strings 50 d) (\<lambda>d'.
        seq (read_loop names 50 d') (ret (status, d'))))))))))"

text \<open>The buffers that \<^verbatim>\<open>clearmem\<close> frees are only set in the extended part.\<close>

definition clearmem :: "bool \<Rightarrow> unit run" where
  "clearmem extended =
     (if extended then emit (Call ''free buffers'') else emit (Fault (UninitRead ''namesBuf'')))"

text \<open>Printing a value with \<^verbatim>\<open>%s\<close>; the pointer -1 for a missing key points to nothing.\<close>

definition show_str :: "test_val option option \<Rightarrow> string run" where
  "show_str v =
     (case v of
        Some (Some (StrVal s)) \<Rightarrow> ret s
      | Some None \<Rightarrow> seq (emit (Fault (NullDeref ''val''))) (ret ''(null)'')
      | _ \<Rightarrow> halt (Crash (BadPointer ''val'')))"

text \<open>Printing the pointer itself with \<^verbatim>\<open>%i\<close>; \<open>addr\<close> is the address of a string.\<close>

definition show_int :: "(string \<Rightarrow> int) \<Rightarrow> test_val option option \<Rightarrow> string" where
  "show_int addr v =
     int_digits (case v of None \<Rightarrow> - 1 | Some None \<Rightarrow> 0 | Some (Some (StrVal s)) \<Rightarrow> addr s | Some (Some (IntPtr i)) \<Rightarrow> i)"

text \<open>
  The test after the fill; the tests \<^verbatim>\<open>(int) &val == -1\<close> are about the address of a local variable and never hold. The
  result is the status and the values printed as received.
\<close>

definition dictionary_rest :: "(string \<Rightarrow> int) \<Rightarrow> bool \<Rightarrow> test_val dict \<Rightarrow> (int \<times> string list) run" where
  "dictionary_rest addr extended d1 =
     bind (setTuple d1 (Some ''foo'') (Some (StrVal ''bar''))) (\<lambda>(status, d2).
       if status \<noteq> 0 then seq (clearmem extended) (ret (- 1, []))
       else
         bind (getIndex d2 0) (\<lambda>val.
         bind (show_str val) (\<lambda>out1.
         bind (setTuple d2 (Some ''foo'') (Some (StrVal ''barbar''))) (\<lambda>(_, d3).
         bind (setTuple d3 (Some ''test'') (Some (StrVal ''value''))) (\<lambda>(_, d4).
         bind (removeTuple d4 (Some ''test'')) (\<lambda>(status, d5).
           if status \<noteq> 0 then seq (clearmem extended) (ret (- 1, [out1]))
           else
             bind (getTuple d5 (Some ''test'')) (\<lambda>val.
             bind (setTuple d5 (Some ''test2'') (Some (IntPtr 1))) (\<lambda>(status, d6).
               if status \<noteq> 0 then seq (clearmem extended) (ret (- 1, [out1, show_int addr val]))
               else
                 bind (getTuple d6 (Some ''foo'')) (\<lambda>val2.
                 bind (show_str val2) (\<lambda>out3.
                 bind (destroyDict d6) (\<lambda>_.
                   ret (0, [out1, show_int addr val, out3]))))))))))))"

definition test_dictionary :: "(string \<Rightarrow> int) \<Rightarrow> (string \<Rightarrow> cptr) \<Rightarrow> bool \<Rightarrow> (int \<times> string list) run" where
  "test_dictionary addr read_file extended =
     bind (initDict True True True 100) (\<lambda>d0.
     bind (if extended then extended_tests read_file d0 else ret (0, d0)) (\<lambda>(status, d1).
       if status \<noteq> 0 then seq (clearmem extended) (ret (- 1, [])) else dictionary_rest addr extended d1))"


section \<open>Communication classes and modules\<close>

text \<open>The two objects start out uninitialised; \<open>junk\<close> stands for what they hold. The result is the status and what is printed.\<close>

definition test_virtual_class :: "tCommClass \<Rightarrow> tCommClass \<Rightarrow> int \<times> string" where
  "test_virtual_class junk1 junk2 =
     (let commTcp = fst (tcpInit junk1); commHttp = fst (httpInit junk2);
          (out1, status1) = open_method commTcp ''bigiron.box.com:5000'' in
      if status1 \<noteq> 0 then (- 1, out1)
      else
        let (out2, status2) = open_method commHttp ''http://www.microsoft.com'' in
        if status2 \<noteq> 0 then (- 1, out1 @ out2) else (0, out1 @ out2))"

text \<open>\<^verbatim>\<open>test_modules\<close> only defines the functions of the module, inside itself.\<close>

definition test_modules :: int where
  "test_modules = 0"


section \<open>Signals and the command line\<close>

definition SIGILL :: int where "SIGILL = 4"
definition SIGABRT :: int where "SIGABRT = 6"
definition SIGFPE :: int where "SIGFPE = 8"
definition SIGTERM :: int where "SIGTERM = 15"

text \<open>The texts for the codes of the two arithmetic and instruction signals, by \<^verbatim>\<open>si_code\<close>.\<close>

definition fpe_text :: "int \<Rightarrow> string" where
  "fpe_text code =
     (if code = 1 then ''(integer divide by zero)''
      else if code = 2 then ''(integer overflow)''
      else if code = 3 then ''(floating-point divide by zero)''
      else if code = 4 then ''(floating-point overflow)''
      else if code = 5 then ''(floating-point underflow)''
      else if code = 6 then ''(floating-point inexact result)''
      else if code = 7 then ''(floating-point invalid operation)''
      else if code = 8 then ''(subscript out of range)''
      else ''Arithmetic Exception'')"

definition ill_text :: "int \<Rightarrow> string" where
  "ill_text code =
     (if code = 1 then ''(illegal opcode)''
      else if code = 2 then ''(illegal operand)''
      else if code = 3 then ''(illegal addressing mode)''
      else if code = 4 then ''(illegal trap)''
      else if code = 5 then ''(privileged opcode)''
      else if code = 6 then ''(privileged register)''
      else if code = 7 then ''(coprocessor error)''
      else if code = 8 then ''(internal stack error)''
      else ''Illegal Instruction'')"

text \<open>
  The command of \<^verbatim>\<open>addr2line\<close>: at most 256 bytes of the program name, and the address as \<^verbatim>\<open>%p\<close> prints it, into 512
  bytes. \<open>sh\<close> is the status \<^verbatim>\<open>system\<close> answers; the command is an event.
\<close>

definition addr2line :: "(string \<Rightarrow> int) \<Rightarrow> cptr \<Rightarrow> string \<Rightarrow> int run" where
  "addr2line sh prog_name addr =
     bind (case prog_name of Some p \<Rightarrow> ret (take 256 p) | None \<Rightarrow> seq (emit (Fault (NullDeref ''PROG_NAME''))) (ret ''(null)'')) (\<lambda>p.
       let cmd = ''addr2line -f -p -e '' @ p @ '' '' @ addr in
       seq (guard_bounds ''addr2line_cmd'' 512 (length cmd)) (seq (emit (Call cmd)) (ret (sh cmd))))"

text \<open>The frames are given by their addresses and their symbols; the result is the lines printed for those that fail.\<close>

fun trace_loop :: "(string \<Rightarrow> int) \<Rightarrow> cptr \<Rightarrow> (string \<times> string) list \<Rightarrow> string list run" where
  "trace_loop sh prog_name [] = ret []"
| "trace_loop sh prog_name ((addr, message) # fs) =
     bind (addr2line sh prog_name addr) (\<lambda>st.
     bind (trace_loop sh prog_name fs) (\<lambda>out.
       ret (if st \<noteq> 0 then (''  error determining line # for: '' @ message @ [CHR 0x0A]) # out else out)))"

definition MAX_STACK_FRAMES :: nat where "MAX_STACK_FRAMES = 64"

definition posix_print_stack_trace :: "(string \<Rightarrow> int) \<Rightarrow> cptr \<Rightarrow> (string \<times> string) list \<Rightarrow> string list run" where
  "posix_print_stack_trace sh pwd frames = trace_loop sh pwd (take MAX_STACK_FRAMES frames)"

definition test_sig_handler :: "(string \<Rightarrow> int) \<Rightarrow> cptr \<Rightarrow> (string \<times> string) list \<Rightarrow> int \<Rightarrow> int \<Rightarrow> unit run" where
  "test_sig_handler sh pwd frames sig si_code =
     (if sig = SIGHUP then halt (Exit (- 2))
      else if sig = SIGINT then halt (Exit (- 3))
      else if sig = SIGQUIT then halt (Exit (- 4))
      else if sig = SIGSEGV then halt (Exit (- 5))
      else if sig = SIGABRT then halt (Exit (- 6))
      else if sig = SIGFPE then seq (emit (Call (''Caught SIGFPE: '' @ fpe_text si_code))) (halt (Exit (- 7)))
      else if sig = SIGILL then seq (emit (Call (''Caught SIGILL: '' @ ill_text si_code))) (halt (Exit (- 8)))
      else if sig = SIGTERM then halt (Exit (- 9))
      else bind (posix_print_stack_trace sh pwd frames) (\<lambda>_. halt (Exit 1)))"

text \<open>\<open>sa sig\<close>: \<^verbatim>\<open>sigaction\<close> accepts the handler. The first refusal ends the program.\<close>

fun install_all :: "(int \<Rightarrow> bool) \<Rightarrow> int list \<Rightarrow> unit run" where
  "install_all sa [] = ret ()"
| "install_all sa (sig # sigs) =
     seq (emit (Call (''sigaction '' @ int_digits sig))) (if sa sig then install_all sa sigs else halt (Exit 1))"

definition test_set_sig_handler :: "bool \<Rightarrow> (int \<Rightarrow> bool) \<Rightarrow> unit run" where
  "test_set_sig_handler sigaltstack_ok sa =
     (if \<not> sigaltstack_ok then halt (Exit 1)
      else install_all sa [SIGHUP, SIGINT, SIGQUIT, SIGSEGV, SIGABRT, SIGFPE, SIGILL, SIGTERM])"

text \<open>The tokens of \<^verbatim>\<open>strtok_r\<close>: the pieces between blanks that are not empty.\<close>

definition main_oop_test ::
  "(string \<Rightarrow> int) \<Rightarrow> (string \<Rightarrow> cptr) \<Rightarrow> bool \<Rightarrow> (int \<Rightarrow> bool) \<Rightarrow> string list \<Rightarrow> unit run"
where
  "main_oop_test addr read_file sigaltstack_ok sa argv =
     (let tokens = (if 1 < length argv then filter (\<lambda>t. t \<noteq> []) (split_on '' '' (argv ! 1)) else []);
          extended = list_ex (\<lambda>t. strcmp t ''--extended'' = 0) tokens in
      seq (test_set_sig_handler sigaltstack_ok sa)
      (bind (test_dictionary addr read_file extended) (\<lambda>(status, out).
        if status \<noteq> 0 then halt (Exit status) else halt (Exit 0))))"

section \<open>What the tests show\<close>

lemma getIndex_dict_of: "i < length kvs \<Longrightarrow> getIndex (dict_of n kvs) i = ret (Some (snd (kvs ! i)))"
  by (simp add: getIndex_def)

lemma update_fresh: "k \<notin> fst ` set kvs \<Longrightarrow> AList.update k v kvs = kvs @ [(k, v)]"
  by (induction kvs) auto

definition str_values :: "(string \<times> test_val option) list \<Rightarrow> bool" where
  "str_values kvs \<longleftrightarrow> (\<forall>v \<in> snd ` set kvs. \<exists>s. v = Some (StrVal s))"

lemma str_values_update: "str_values kvs \<Longrightarrow> str_values (AList.update k (Some (StrVal s)) kvs)"
  by (induction kvs) (auto simp: str_values_def)

lemma update_length: "length (AList.update k v kvs) \<le> Suc (length kvs)"
  by (induction kvs) auto

lemma dictionary_rest_passes:
  assumes g: "good_pairs n kvs" and room: "length kvs + 3 \<le> n" and str: "str_values kvs" and fresh: "''test'' \<notin> fst ` set kvs"
  shows "\<exists>l v. dictionary_rest addr extended (dict_of n kvs) = (l, Inr (0, [v, ''-1'', ''barbar''])) \<and> list_all (Not \<circ> is_fault) l \<and>
    (kvs = [] \<longrightarrow> v = ''bar'')"
proof -
  have cs: "is_cstring ''foo''" "is_cstring ''test''" "is_cstring ''test2''" by (simp_all add: is_cstring_def)
  let ?k2 = "AList.update ''foo'' (Some (StrVal ''bar'')) kvs"
  let ?k3 = "AList.update ''foo'' (Some (StrVal ''barbar'')) kvs"
  have len: "length ?k2 \<le> length kvs + 1" "length ?k3 \<le> length kvs + 1"
    using update_length [of "''foo''" _ kvs] by simp_all
  have g2: "good_pairs n ?k2" using room by (intro good_pairs_update g cs) simp
  have g3: "good_pairs n ?k3" using room by (intro good_pairs_update g cs) simp
  have f3: "''test'' \<notin> fst ` set ?k3"
    using fresh by (simp add: dom_update)
  then have k4: "AList.update ''test'' (Some (StrVal ''value'')) ?k3 = ?k3 @ [(''test'', Some (StrVal ''value''))]"
    by (rule update_fresh)
  have g4: "good_pairs n (?k3 @ [(''test'', Some (StrVal ''value''))])"
    unfolding k4 [symmetric] using room len by (intro good_pairs_update g3 cs) simp
  let ?k6 = "AList.update ''test2'' (Some (IntPtr 1)) ?k3"
  have g6: "good_pairs n ?k6" using room len by (intro good_pairs_update g3 cs) simp
  have "\<exists>x y. ?k2 ! 0 = (x, Some (StrVal y)) \<and> ?k2 \<noteq> [] \<and> (kvs = [] \<longrightarrow> y = ''bar'')"
    using str by (cases kvs) (auto simp: str_values_def)
  then obtain x y where xy: "?k2 ! 0 = (x, Some (StrVal y))" "?k2 \<noteq> []" "kvs = [] \<longrightarrow> y = ''bar''" by blast
  have m6: "map_of ?k6 ''foo'' = Some (Some (StrVal ''barbar''))" by (simp add: update_conv')
  have m3: "map_of ?k3 ''test'' = None" using f3 by (simp add: map_of_eq_None_iff)
  have "dictionary_rest addr extended (dict_of n kvs) =
     bind (destroyDict (dict_of n ?k6)) (\<lambda>_. ret (0, [y, ''-1'', ''barbar'']))"
    using room len xy
    by (simp add: dictionary_rest_def setTuple_dict_of [OF g cs(1)] getIndex_dict_of show_str_def setTuple_dict_of [OF g2 cs(1)]
        setTuple_dict_of [OF g3 cs(2)] k4 removeTuple_snoc [OF g4] getTuple_dict_of [OF g3 cs(2)] m3 show_int_def
        setTuple_dict_of [OF g3 cs(3)] getTuple_dict_of [OF g6 cs(1)] m6 int_digits_def nat_digits.simps char_of_def bit_0)
  then show ?thesis using xy(3) by (simp add: destroyDict_def bind_pair)
qed

lemma arr_get_token: "i < length toks \<Longrightarrow> length toks \<le> c \<Longrightarrow>
  arr_get name \<lparr>cells = map Some toks @ [None], acap = c\<rparr> i = ret (Some (toks ! i))"
  by (simp add: arr_get_def nth_append)

lemma fill_loop_ok:
  assumes "length ns \<le> cn" "length ss \<le> cs" "\<forall>k \<in> set ns. is_cstring k"
  shows "i \<le> length ns \<Longrightarrow> i \<le> length ss \<Longrightarrow> good_pairs n kvs \<Longrightarrow> length kvs + i \<le> n \<Longrightarrow> str_values kvs \<Longrightarrow>
    \<exists>kvs'. fill_loop \<lparr>cells = map Some ns @ [None], acap = cn\<rparr> \<lparr>cells = map Some ss @ [None], acap = cs\<rparr> i (dict_of n kvs) =
        ret (dict_of n kvs') \<and> good_pairs n kvs' \<and> length kvs' \<le> length kvs + i \<and> str_values kvs' \<and>
      fst ` set kvs' = fst ` set kvs \<union> set (take i ns)"
proof (induction i arbitrary: kvs)
  case 0
  then show ?case by auto
next
  case (Suc i)
  then have i: "i < length ns" "i < length ss" by simp_all
  then have k: "is_cstring (ns ! i)" using assms(3) by simp
  let ?kvs = "AList.update (ns ! i) (Some (StrVal (ss ! i))) kvs"
  have g: "good_pairs n ?kvs" using Suc.prems(4) by (intro good_pairs_update Suc.prems(3) k) simp
  have len: "length ?kvs \<le> Suc (length kvs)" by (rule update_length)
  have st: "str_values ?kvs"
    using Suc.prems(5) by (rule str_values_update)
  have room: "length ?kvs + i \<le> n" using len Suc.prems(4) by simp
  from Suc.IH [OF less_imp_le [OF i(1)] less_imp_le [OF i(2)] g room st] obtain kvs' where
    kvs': "fill_loop \<lparr>cells = map Some ns @ [None], acap = cn\<rparr> \<lparr>cells = map Some ss @ [None], acap = cs\<rparr> i (dict_of n ?kvs) =
        ret (dict_of n kvs')" "good_pairs n kvs'" "length kvs' \<le> length ?kvs + i" "str_values kvs'"
      "fst ` set kvs' = fst ` set ?kvs \<union> set (take i ns)" by blast
  have "fst ` set ?kvs = insert (ns ! i) (fst ` set kvs)" by (simp add: dom_update)
  then have keys: "fst ` set kvs' = fst ` set kvs \<union> set (take (Suc i) ns)"
    using kvs'(5) i by (simp add: take_Suc_conv_app_nth)
  have "setTuple (dict_of n kvs) (Some (ns ! i)) (Some (StrVal (ss ! i))) = ret (0, dict_of n ?kvs)"
    using Suc.prems(4) by (simp add: setTuple_dict_of [OF Suc.prems(3) k])
  then have "fill_loop \<lparr>cells = map Some ns @ [None], acap = cn\<rparr> \<lparr>cells = map Some ss @ [None], acap = cs\<rparr> (Suc i) (dict_of n kvs) =
      ret (dict_of n kvs')"
    using kvs'(1) i assms(1,2) by (simp add: arr_get_token)
  then show ?case using kvs'(2,4) keys len kvs'(3) by (intro exI [of _ kvs']) simp
qed

lemma read_loop_ok:
  assumes "length ns \<le> cn" "\<forall>k \<in> set ns. is_cstring k" "good_pairs n kvs"
  shows "i \<le> length ns \<Longrightarrow> read_loop \<lparr>cells = map Some ns @ [None], acap = cn\<rparr> i (dict_of n kvs) = ret ()"
proof (induction i)
  case (Suc i)
  then have "is_cstring (ns ! i)" using assms(2) by simp
  with Suc assms(1) show ?case by (simp add: arr_get_token getTuple_dict_of [OF assms(3)])
qed simp

text \<open>A file the extended test can use: at least 50 lines, none of them the name the test removes, no NUL.\<close>

definition usable_text :: "string \<Rightarrow> bool" where
  "usable_text s \<longleftrightarrow> is_cstring s \<and> 50 \<le> length (tokens_of newline s) \<and> strtol0 s \<noteq> - 1 \<and>
     ''test'' \<notin> set (tokens_of newline s)"

lemma tokens_cstring: "is_cstring s \<Longrightarrow> \<forall>t \<in> set (tokens_of newline s). is_cstring t"
proof -
  assume s: "is_cstring s"
  have "set t \<subseteq> set (join_with d ps)" if "t \<in> set ps" for t d and ps :: "string list"
    using that by (induction d ps rule: join_with.induct) auto
  from this [of _ "split_on newline s" newline] show ?thesis
    using s by (auto simp: tokens_of_def Let_def is_cstring_def join_split dest: in_set_butlastD split: if_splits)
qed

lemma extended_tests_run:
  assumes "rf ''/CS202/TEMP/src/names.txt'' = Some nb" "rf ''/CS202/TEMP/src/strings.txt'' = Some sb"
    "usable_text nb" "usable_text sb"
  shows "\<exists>l kvs. extended_tests rf (dict_of 100 []) = (l, Inr (0, dict_of 100 kvs)) \<and> good_pairs 100 kvs \<and>
    length kvs \<le> 50 \<and> str_values kvs \<and> ''test'' \<notin> fst ` set kvs"
proof -
  let ?ns = "tokens_of newline nb" and ?ss = "tokens_of newline sb"
  let ?a = "\<lparr>cells = map Some ?ns @ [None], acap = length (split_on newline nb)\<rparr>"
  let ?b = "\<lparr>cells = map Some ?ss @ [None], acap = length (split_on newline sb)\<rparr>"
  have nl: "newline \<noteq> []" by (simp add: newline_def)
  have n: "50 \<le> length ?ns" "50 \<le> length ?ss" "\<forall>k \<in> set ?ns. is_cstring k" "''test'' \<notin> set ?ns"
    using assms(3,4) tokens_cstring [of nb] by (auto simp: usable_text_def)
  have "good_pairs 100 ([] :: (string \<times> test_val option) list)" "str_values []" by (simp_all add: good_pairs_def str_values_def)
  with fill_loop_ok [OF tokens_of_length tokens_of_length n(3) n(1,2), of 100 "[]"] obtain kvs where
    kvs: "fill_loop ?a ?b 50 (dict_of 100 []) = ret (dict_of 100 kvs)" "good_pairs 100 kvs" "length kvs \<le> 50" "str_values kvs"
      "fst ` set kvs = set (take 50 ?ns)" by auto
  have r: "read_loop ?a 50 (dict_of 100 kvs) = ret ()" by (rule read_loop_ok [OF tokens_of_length n(3) kvs(2) n(1)])
  have st: "strtol0 nb \<noteq> - 1" "strtol0 sb \<noteq> - 1" using assms(3,4) by (simp_all add: usable_text_def)
  obtain l1 l2 where l: "strsplit True True (Some nb) newline = (l1, Inr (Some ?a, length (split_on newline nb)))"
    "strsplit True True (Some sb) newline = (l2, Inr (Some ?b, length (split_on newline sb)))"
    using strsplit_eq [OF nl] by blast
  have "extended_tests rf (dict_of 100 []) = (l1 @ l2, Inr (0, dict_of 100 kvs))"
    by (simp add: extended_tests_def assms(1,2) l bind_pair Let_def st kvs(1) r)
  moreover have "''test'' \<notin> fst ` set kvs" using kvs(5) n(4) by (auto dest: in_set_takeD)
  ultimately show ?thesis using kvs(2-4) by blast
qed

text \<open>The dictionary test passes. Without the option it returns 0 with no fault and prints ``bar'', -1 (the removed key is
  gone) and ``barbar'' (the overwritten value). With the option it does so for every pair of files of at least 50 lines
  whose first number is not -1 and where no line is ``test'', after storing the names, repeated ones included.\<close>

theorem test_dictionary_passes:
  "(\<exists>l. test_dictionary addr rf False = (l, Inr (0, [''bar'', ''-1'', ''barbar''])) \<and> list_all (Not \<circ> is_fault) l) \<and>
   (rf ''/CS202/TEMP/src/names.txt'' = Some nb \<and> rf ''/CS202/TEMP/src/strings.txt'' = Some sb \<and>
      usable_text nb \<and> usable_text sb \<longrightarrow>
      (\<exists>l v. test_dictionary addr rf True = (l, Inr (0, [v, ''-1'', ''barbar'']))))"
proof (intro conjI impI)
  have g: "good_pairs 100 ([] :: (string \<times> test_val option) list)" "str_values []" by (simp_all add: good_pairs_def str_values_def)
  show "\<exists>l. test_dictionary addr rf False = (l, Inr (0, [''bar'', ''-1'', ''barbar''])) \<and> list_all (Not \<circ> is_fault) l"
    using dictionary_rest_passes [OF g(1) _ g(2), of addr False] by (simp add: test_dictionary_def initDict_dict_of)
  show "\<exists>l v. test_dictionary addr rf True = (l, Inr (0, [v, ''-1'', ''barbar'']))"
    if files: "rf ''/CS202/TEMP/src/names.txt'' = Some nb \<and> rf ''/CS202/TEMP/src/strings.txt'' = Some sb \<and> usable_text nb \<and> usable_text sb"
  proof -
    from extended_tests_run [of rf nb sb] files obtain l kvs where
      e: "extended_tests rf (dict_of 100 []) = (l, Inr (0, dict_of 100 kvs))" "good_pairs 100 kvs" "length kvs \<le> 50"
        "str_values kvs" "''test'' \<notin> fst ` set kvs" by blast
    then obtain l' v where "dictionary_rest addr True (dict_of 100 kvs) = (l', Inr (0, [v, ''-1'', ''barbar'']))"
      using dictionary_rest_passes [OF e(2) _ e(4,5), of addr True] by auto
    with e(1) show ?thesis by (simp add: test_dictionary_def initDict_dict_of bind_pair)
  qed
qed

definition sample_lines :: string where
  "sample_lines = join_with newline (replicate 50 ''n'')"

lemma sample_lines_usable: "usable_text sample_lines"
proof -
  have s: "split_on newline sample_lines = replicate 50 ''n''"
    unfolding sample_lines_def by (rule split_join) (simp_all add: newline_def)
  have c: "is_cstring (join_with newline (replicate k ''n''))" for k
  proof (induction k)
    case (Suc k)
    then show ?case by (cases k) (simp_all add: is_cstring_def newline_def)
  qed (simp add: is_cstring_def)
  have "strtol0 (CHR ''n'' # t) = 0" for t by (simp add: strtol0_def Let_def isspace_def digit_val_def byte_def)
  moreover obtain t where "sample_lines = CHR ''n'' # t" by (simp add: sample_lines_def newline_def eval_nat_numeral)
  ultimately have "strtol0 sample_lines = 0" by metis
  moreover have "is_cstring sample_lines" unfolding sample_lines_def by (rule c)
  ultimately show ?thesis using s by (simp add: usable_text_def tokens_of_def Let_def)
qed

theorem test_dictionary_passes_witness:
  "\<exists>l v. test_dictionary (\<lambda>_. 4096) (\<lambda>_. Some sample_lines) True = (l, Inr (0, [v, ''-1'', ''barbar'']))"
  using test_dictionary_passes [of "\<lambda>_. 4096" "\<lambda>_. Some sample_lines" sample_lines sample_lines] sample_lines_usable by blast

text \<open>The test program succeeds: with the alternate stack and all eight handlers in place and without the option it exits with
  status 0, and only a handler that cannot be set makes it exit with status 1 before the test.\<close>

theorem main_oop_test_exits:
  assumes "\<forall>t \<in> set (split_on '' '' (argv ! 1)). strcmp t ''--extended'' \<noteq> 0"
  shows "snd (main_oop_test addr rf alt sa argv) =
    Inl (Exit (if alt \<and> list_all sa [SIGHUP, SIGINT, SIGQUIT, SIGSEGV, SIGABRT, SIGFPE, SIGILL, SIGTERM] then 0 else 1))"
proof -
  obtain l where t: "test_dictionary addr rf False = (l, Inr (0, [''bar'', ''-1'', ''barbar'']))"
    using dictionary_rest_passes [of 100 "[]" addr False]
    by (auto simp: test_dictionary_def initDict_dict_of good_pairs_def str_values_def)
  have i: "snd (install_all sa sigs) = (if list_all sa sigs then Inr () else Inl (Exit 1))" for sigs
    by (induction sigs) (simp_all add: seq_emit)
  have x: "list_ex (\<lambda>t. strcmp t ''--extended'' = 0)
      (if 1 < length argv then filter (\<lambda>t. t \<noteq> []) (split_on '' '' (argv ! 1)) else []) = False"
    using assms by (auto simp: list_ex_iff)
  show ?thesis
    unfolding main_oop_test_def Let_def x test_set_sig_handler_def
    using i [of "[SIGHUP, SIGINT, SIGQUIT, SIGSEGV, SIGABRT, SIGFPE, SIGILL, SIGTERM]"]
    by (simp add: seq_def bind_def t del: install_all.simps)
qed

theorem main_oop_test_exits_witness:
  "snd (main_oop_test (\<lambda>_. 4096) (\<lambda>_. None) True (\<lambda>_. True) [''oop_test'', ''-v'']) = Inl (Exit 0)"
proof -
  have s: "split_on '' '' ''-v'' = [''-v'']" by (rule split_on_single) simp_all
  show ?thesis
    using main_oop_test_exits [of "[''oop_test'', ''-v'']" "\<lambda>_. 4096" "\<lambda>_. None" True "\<lambda>_. True"] by (simp add: s byte_def)
qed

text \<open>The signal handler of the test program never returns. Each of the eight signals it is installed for ends the process
  with a status of its own, below zero, and any other one with status 1 after the stack trace; the command for a frame
  always fits its buffer of 512 bytes, for addresses of up to 200 characters.\<close>

theorem test_sig_handler_exits:
  shows "\<exists>n. snd (test_sig_handler sh pwd frames sig code) = Inl (Exit n)"
    and "map (\<lambda>sig. snd (test_sig_handler sh pwd frames sig code)) [SIGHUP, SIGINT, SIGQUIT, SIGSEGV, SIGABRT, SIGFPE, SIGILL, SIGTERM] =
      map (\<lambda>n. Inl (Exit n)) [- 2, - 3, - 4, - 5, - 6, - 7, - 8, - 9]"
    and "length a \<le> 200 \<Longrightarrow> \<exists>cmd. addr2line sh (Some p) a = ([Call cmd], Inr (sh cmd))"
proof -
  have a: "\<exists>l st. addr2line sh pwd a = (l, Inr st)" for sh pwd a
    by (cases pwd) (simp_all add: addr2line_def Let_def guard_bounds_def seq_emit bind_pair)
  have t: "\<exists>out. snd (trace_loop sh pwd fs) = Inr out" for fs
  proof (induction fs)
    case (Cons f fs)
    obtain addr message where f: "f = (addr, message)" by fastforce
    then show ?case using a [of sh pwd addr] Cons by (auto simp: bind_def)
  qed simp
  show "\<exists>n. snd (test_sig_handler sh pwd frames sig code) = Inl (Exit n)"
    using t [of "take MAX_STACK_FRAMES frames"]
    by (auto simp: test_sig_handler_def posix_print_stack_trace_def seq_emit bind_def)
  show "map (\<lambda>sig. snd (test_sig_handler sh pwd frames sig code)) [SIGHUP, SIGINT, SIGQUIT, SIGSEGV, SIGABRT, SIGFPE, SIGILL, SIGTERM] =
      map (\<lambda>n. Inl (Exit n)) [- 2, - 3, - 4, - 5, - 6, - 7, - 8, - 9]"
    by (simp add: test_sig_handler_def SIGHUP_def SIGINT_def SIGQUIT_def SIGSEGV_def SIGABRT_def SIGFPE_def SIGILL_def
        SIGTERM_def seq_emit)
  show "\<exists>cmd. addr2line sh (Some p) a = ([Call cmd], Inr (sh cmd))" if "length a \<le> 200"
    using that by (simp add: addr2line_def Let_def seq_emit)
qed

theorem test_sig_handler_exits_witness:
  "\<exists>cmd. addr2line (\<lambda>_. 0) (Some ''/root'') ''0x4005d6'' = ([Call cmd], Inr 0)"
  using test_sig_handler_exits(3) [of "''0x4005d6''" "\<lambda>_. 0" "''/root''"] by simp

end
