(* ===== verification/Server_Signals.thy ===== *)
theory Server_Signals
  imports Server
begin

text \<open>
  Signals that arrive at any moment. In \<open>Server\<close> a signal is delivered between two connections; here the accept loop of
  \<^verbatim>\<open>src/server/server.c\<close> runs one event at a time and a handler can interrupt it, and other handlers, before any of them.
  The process is a stack of interrupted runs. \<^verbatim>\<open>signal\<close> blocks a signal while its own handler runs and no other; the
  handler of \<^verbatim>\<open>SIGCHLD\<close>, installed with an empty mask, blocks nothing but itself and returns. A dereference of the first page
  raises \<^verbatim>\<open>SIGSEGV\<close>; while that signal is blocked it kills the process.
\<close>

section \<open>Processes\<close>

text \<open>What is running: the program, the handler of one of the four signals, or the handler of \<^verbatim>\<open>SIGCHLD\<close>. A frame has the
  events still to come and what the run does after them.\<close>

datatype runner = Program | Handler handled_signal | Child_handler

record frame =
  runs :: runner
  todo :: "event list"
  outcome :: "halt + unit"

record process =
  frames :: "frame list"
  logged :: "event list"
  halted :: "halt option"
  cerrno :: int

definition frame_of :: "runner \<Rightarrow> 'a run \<Rightarrow> frame" where
  "frame_of r m = \<lparr>runs = r, todo = fst m, outcome = map_sum id (\<lambda>_. ()) (snd m)\<rparr>"

definition start_process :: "unit run \<Rightarrow> process" where
  "start_process m = \<lparr>frames = [frame_of Program m], logged = [], halted = None, cerrno = 0\<rparr>"

text \<open>The signals being handled, the latest first.\<close>

definition handled :: "process \<Rightarrow> handled_signal list" where
  "handled p = concat (map (\<lambda>f. case runs f of Handler s \<Rightarrow> [s] | _ \<Rightarrow> []) (frames p))"

definition child_blocked :: "process \<Rightarrow> bool" where
  "child_blocked p \<longleftrightarrow> Child_handler \<in> runs ` set (frames p)"

definition deliver :: "int \<Rightarrow> handled_signal \<Rightarrow> process \<Rightarrow> process" where
  "deliver listen_sock s p =
     p\<lparr>frames := frame_of (Handler s) (parent_sig_handler listen_sock (signo s)) # frames p\<rparr>"

definition deliver_child :: "(nat \<Rightarrow> int \<times> int) \<Rightarrow> process \<Rightarrow> process" where
  "deliver_child wp p =
     (let m = child_sig_handler wp (cerrno p) in
      p\<lparr>frames := frame_of Child_handler m # frames p,
        cerrno := (case snd m of Inr (calls, errno') \<Rightarrow> errno' | Inl h \<Rightarrow> cerrno p)\<rparr>)"

text \<open>The next thing the process does by itself: the next event, the return of a handler, the exit, the delivery of
  \<^verbatim>\<open>SIGSEGV\<close>. \<open>None\<close>: it has ended, waits in \<^verbatim>\<open>accept\<close>, or is in a loop that never ends.\<close>

definition advance :: "int \<Rightarrow> process \<Rightarrow> process option" where
  "advance listen_sock p =
     (case (halted p, frames p) of
        (None, f # fs) \<Rightarrow>
          (case todo f of
             e # es \<Rightarrow> Some (p\<lparr>frames := f\<lparr>todo := es\<rparr> # fs, logged := logged p @ [e]\<rparr>)
           | [] \<Rightarrow>
               (case outcome f of
                  Inr _ \<Rightarrow> if fs = [] then None else Some (p\<lparr>frames := fs\<rparr>)
                | Inl (Exit n) \<Rightarrow> Some (p\<lparr>halted := Some (Exit n)\<rparr>)
                | Inl (Crash x) \<Rightarrow>
                    if first_page x \<and> Segv \<notin> set (handled p) then Some (deliver listen_sock Segv p)
                    else Some (p\<lparr>halted := Some (Crash x)\<rparr>)
                | Inl Hang \<Rightarrow> None))
      | _ \<Rightarrow> None)"

inductive proc_step :: "int \<Rightarrow> process \<Rightarrow> process \<Rightarrow> bool" for listen_sock where
  Advance: "advance listen_sock p = Some q \<Longrightarrow> proc_step listen_sock p q"
| Signal: "halted p = None \<Longrightarrow> s \<notin> set (handled p) \<Longrightarrow> proc_step listen_sock p (deliver listen_sock s p)"
| Child: "halted p = None \<Longrightarrow> \<not> child_blocked p \<Longrightarrow> proc_step listen_sock p (deliver_child wp p)"

text \<open>The accept loop of \<^verbatim>\<open>main\<close> by itself, a fault in it being the end of the run.\<close>

fun accept_loop :: "cptr \<Rightarrow> (int \<times> conn_env) list \<Rightarrow> unit run" where
  "accept_loop root_dir [] = ret ()"
| "accept_loop root_dir ((worker_sock, e) # rest) =
     (if worker_sock < 0 then accept_loop root_dir rest
      else seq (respond e worker_sock root_dir) (seq (emit (Close worker_sock)) (accept_loop root_dir rest)))"


section \<open>The signals\<close>

text \<open>There are finitely many signals with a handler, so the handlers can nest only so deep.\<close>

instantiation handled_signal :: enum
begin

definition enum_handled_signal :: "handled_signal list" where
  "enum_handled_signal = [Hup, Intr, Quit, Segv]"

definition enum_all_handled_signal :: "(handled_signal \<Rightarrow> bool) \<Rightarrow> bool" where
  "enum_all_handled_signal P \<longleftrightarrow> P Hup \<and> P Intr \<and> P Quit \<and> P Segv"

definition enum_ex_handled_signal :: "(handled_signal \<Rightarrow> bool) \<Rightarrow> bool" where
  "enum_ex_handled_signal P \<longleftrightarrow> P Hup \<or> P Intr \<or> P Quit \<or> P Segv"

instance
proof
  show "(UNIV :: handled_signal set) = set enum_class.enum"
    by (auto simp: enum_handled_signal_def intro: handled_signal.exhaust)
  show "distinct (enum_class.enum :: handled_signal list)" by (simp add: enum_handled_signal_def)
  show "enum_class.enum_all P \<longleftrightarrow> Ball UNIV P" for P :: "handled_signal \<Rightarrow> bool"
    by (auto simp: enum_all_handled_signal_def) (metis handled_signal.exhaust)
  show "enum_class.enum_ex P \<longleftrightarrow> Bex UNIV P" for P :: "handled_signal \<Rightarrow> bool"
    by (auto simp: enum_ex_handled_signal_def) (metis handled_signal.exhaust)
qed

end

lemma signals_at_most_four: "distinct (ss :: handled_signal list) \<Longrightarrow> length ss \<le> 4"
  using card_mono [of "UNIV :: handled_signal set" "set ss"] card_length [of "enum_class.enum :: handled_signal list"]
  by (simp add: distinct_card enum_UNIV) (simp add: enum_handled_signal_def)

fun sig_status :: "handled_signal \<Rightarrow> int" where
  "sig_status Hup = 1"
| "sig_status Intr = 2"
| "sig_status Quit = 3"
| "sig_status Segv = 4"

definition clean_up :: "int \<Rightarrow> event list" where
  "clean_up listen_sock = (if listen_sock \<noteq> 0 then [Close listen_sock] else []) @
     map Call [''ERR_free_strings'', ''EVP_cleanup'', ''CRYPTO_cleanup_all_ex_data'']"

lemma handler_run: "parent_sig_handler l (signo s) = (clean_up l, Inl (Exit (sig_status s)))"
  by (cases s) (simp_all only: parent_sig_handler_eq sig_cleanup_eq clean_up_def handled_signal.case sig_status.simps)

lemma deliver_eq:
  "deliver l s p = p\<lparr>frames := \<lparr>runs = Handler s, todo = clean_up l, outcome = Inl (Exit (sig_status s))\<rparr> # frames p\<rparr>"
  by (simp add: deliver_def frame_of_def handler_run del: signo.simps)


section \<open>The invariant\<close>

text \<open>A handler on the stack: a suffix of the clean-up is left and then the exit with the status of the signal; the handler of
  \<^verbatim>\<open>SIGCHLD\<close> has no event left.\<close>

fun handler_frame :: "int \<Rightarrow> frame \<Rightarrow> bool" where
  "handler_frame l f \<longleftrightarrow>
     (case runs f of
        Program \<Rightarrow> False
      | Handler s \<Rightarrow> suffix (todo f) (clean_up l) \<and> outcome f = Inl (Exit (sig_status s))
      | Child_handler \<Rightarrow> todo f = [] \<and> (outcome f = Inr () \<or> outcome f = Inl Hang))"

declare handler_frame.simps [simp del]

definition closes_left :: "int \<Rightarrow> frame list \<Rightarrow> nat" where
  "closes_left l ups = sum_list (map (\<lambda>f. count_list (todo f) (Close l)) ups)"

definition sigs :: "frame list \<Rightarrow> handled_signal list" where
  "sigs fs = concat (map (\<lambda>f. case runs f of Handler s \<Rightarrow> [s] | _ \<Rightarrow> []) fs)"

lemma handled_sigs: "handled p = sigs (frames p)"
  by (simp add: handled_def sigs_def)

lemma sigs_simps [simp]:
  "sigs [] = []" "sigs (f # fs) = (case runs f of Handler s \<Rightarrow> [s] | _ \<Rightarrow> []) @ sigs fs" "sigs (fs @ gs) = sigs fs @ sigs gs"
  by (simp_all add: sigs_def)

text \<open>
  The stack is handlers above the program; what has been logged is a part of the program's events followed by events of the
  handlers (\<open>r\<close>). Every close of the listening socket is in \<open>r\<close> or still to come, one for each signal being handled.
\<close>

definition proc_ok :: "int \<Rightarrow> unit run \<Rightarrow> process \<Rightarrow> frame list \<Rightarrow> nat \<Rightarrow> event list \<Rightarrow> bool" where
  "proc_ok l m p ups k r \<longleftrightarrow>
     frames p = ups @ [\<lparr>runs = Program, todo = drop k (fst m), outcome = snd m\<rparr>] \<and> list_all (handler_frame l) ups \<and>
     distinct (sigs ups) \<and> logged p = take k (fst m) @ r \<and> set r \<subseteq> set (clean_up l) \<and> (sigs ups = [] \<longrightarrow> r = []) \<and>
     (l \<noteq> 0 \<longrightarrow> count_list r (Close l) + closes_left l ups = length (sigs ups))"

text \<open>How a process ends: by itself, having done all its events, or as the handler on top of the stack says.\<close>

definition end_ok :: "unit run \<Rightarrow> process \<Rightarrow> frame list \<Rightarrow> nat \<Rightarrow> bool" where
  "end_ok m p ups k \<longleftrightarrow>
     (case halted p of
        None \<Rightarrow> True
      | Some h \<Rightarrow>
          (case ups of
             [] \<Rightarrow> length (fst m) \<le> k \<and> snd m = Inl h \<and> (\<forall>x. h = Crash x \<longrightarrow> \<not> first_page x)
           | f # fs \<Rightarrow> \<exists>s. runs f = Handler s \<and> h = Exit (sig_status s)))"

lemma frame_of_program: "frame_of Program (m :: unit run) = \<lparr>runs = Program, todo = fst m, outcome = snd m\<rparr>"
  by (cases "snd m") (simp_all add: frame_of_def)

lemma proc_ok_start: "proc_ok l m (start_process m) [] 0 [] \<and> end_ok m (start_process m) [] 0"
  by (simp add: proc_ok_def end_ok_def start_process_def frame_of_program closes_left_def)

lemma handler_frame_new: "handler_frame l (frame_of (Handler s) (parent_sig_handler l (signo s)))"
  by (simp add: handler_frame.simps frame_of_def handler_run)

lemma closes_clean_up: "l \<noteq> 0 \<Longrightarrow> count_list (clean_up l) (Close l) = 1"
  by (simp add: clean_up_def)

lemma proc_ok_deliver:
  assumes "proc_ok l m p ups k r" "s \<notin> set (handled p)" "halted p = None"
  shows "proc_ok l m (deliver l s p) (frame_of (Handler s) (parent_sig_handler l (signo s)) # ups) k r \<and>
    end_ok m (deliver l s p) (frame_of (Handler s) (parent_sig_handler l (signo s)) # ups) k"
  using assms handler_frame_new [of l s]
  by (auto simp: proc_ok_def end_ok_def deliver_def handled_sigs closes_left_def frame_of_def handler_run closes_clean_up)

lemma child_run: "\<exists>x. child_sig_handler wp e = ([], x) \<and> (x = Inl Hang \<or> (\<exists>c. x = Inr (c, e)))"
  by (auto simp: child_sig_handler_def Let_def ret_def halt_def split: option.splits)

lemma proc_ok_child:
  assumes "proc_ok l m p ups k r" "halted p = None"
  shows "\<exists>f. proc_ok l m (deliver_child wp p) (f # ups) k r \<and> end_ok m (deliver_child wp p) (f # ups) k"
proof -
  obtain x where x: "child_sig_handler wp (cerrno p) = ([], x)" "x = Inl Hang \<or> (\<exists>c. x = Inr (c, cerrno p))"
    using child_run by blast
  then show ?thesis
    using assms
    by (intro exI [of _ "frame_of Child_handler (child_sig_handler wp (cerrno p))"])
       (auto simp: proc_ok_def end_ok_def deliver_child_def Let_def closes_left_def frame_of_def handler_frame.simps)
qed

lemma proc_ok_advance:
  assumes "proc_ok l m p ups k r" "end_ok m p ups k" "advance l p = Some q"
  shows "\<exists>ups k r. proc_ok l m q ups k r \<and> end_ok m q ups k"
proof (cases ups)
  case Nil
  let ?f = "\<lparr>runs = Program, todo = drop k (fst m), outcome = snd m\<rparr>"
  have p: "frames p = [?f]" "logged p = take k (fst m)" "halted p = None"
    using assms Nil by (auto simp: proc_ok_def advance_def split: option.splits)
  show ?thesis
  proof (cases "drop k (fst m)")
    case (Cons e es)
    have "k < length (fst m)" using Cons by (rule contrapos_pp) (simp add: not_less)
    moreover have "drop k (fst m) = fst m ! k # drop (Suc k) (fst m)" using calculation by (simp add: Cons_nth_drop_Suc)
    ultimately have k: "k < length (fst m)" "e = fst m ! k" "es = drop (Suc k) (fst m)" using Cons by simp_all
    then have "q = p\<lparr>frames := [?f\<lparr>todo := es\<rparr>], logged := logged p @ [e]\<rparr>"
      using assms(3) p Cons by (simp add: advance_def)
    then have "proc_ok l m q [] (Suc k) [] \<and> end_ok m q [] (Suc k)"
      using p k by (simp add: proc_ok_def end_ok_def closes_left_def take_Suc_conv_app_nth)
    then show ?thesis by blast
  next
    case over: Nil
    then have "length (fst m) \<le> k" by simp
    have h: "handled p = []" using p by (simp add: handled_sigs)
    show ?thesis
    proof (cases "\<exists>x. snd m = Inl (Crash x) \<and> first_page x")
      case True
      then have "q = deliver l Segv p" using assms(3) p over h by (auto simp: advance_def)
      then show ?thesis using proc_ok_deliver [OF assms(1), of Segv] h p by auto
    next
      case False
      then obtain x where x: "snd m = Inl x" "q = p\<lparr>halted := Some x\<rparr>" "\<forall>y. x = Crash y \<longrightarrow> \<not> first_page y"
        using assms(3) p over by (auto simp: advance_def split: sum.splits halt.splits)
      then have "proc_ok l m q [] k [] \<and> end_ok m q [] k"
        using assms(1) p \<open>length (fst m) \<le> k\<close> Nil by (simp add: proc_ok_def end_ok_def closes_left_def)
      then show ?thesis by blast
    qed
  qed
next
  case (Cons f fs)
  have hf: "handler_frame l f" "halted p = None" using assms Cons by (auto simp: proc_ok_def advance_def split: option.splits)
  show ?thesis
  proof (cases "todo f")
    case todo: (Cons e es)
    then obtain s where s: "runs f = Handler s" "suffix (todo f) (clean_up l)"
      using hf(1) by (auto simp: handler_frame.simps split: runner.splits)
    then have "suffix es (clean_up l)" "e \<in> set (clean_up l)" using todo
      by (metis suffix_ConsD, metis list.set_intros(1) set_mono_suffix subsetD)
    moreover have "q = p\<lparr>frames := f\<lparr>todo := es\<rparr> # fs @ [\<lparr>runs = Program, todo = drop k (fst m), outcome = snd m\<rparr>],
        logged := logged p @ [e]\<rparr>"
      using assms(1,3) Cons todo hf(2) by (simp add: advance_def proc_ok_def)
    ultimately have "proc_ok l m q (f\<lparr>todo := es\<rparr> # fs) k (r @ [e]) \<and> end_ok m q (f\<lparr>todo := es\<rparr> # fs) k"
      using assms(1) Cons todo hf s by (auto simp: proc_ok_def end_ok_def closes_left_def handler_frame.simps)
    then show ?thesis by blast
  next
    case Nil
    show ?thesis
    proof (cases "runs f")
      case (Handler s)
      then have "q = p\<lparr>halted := Some (Exit (sig_status s))\<rparr>"
        using assms(1,3) Cons Nil hf by (simp add: advance_def proc_ok_def handler_frame.simps)
      then have "proc_ok l m q ups k r \<and> end_ok m q ups k"
        using assms(1) Cons Handler by (simp add: proc_ok_def end_ok_def)
      then show ?thesis by blast
    next
      case Child_handler
      then have "q = p\<lparr>frames := fs @ [\<lparr>runs = Program, todo = drop k (fst m), outcome = snd m\<rparr>]\<rparr>"
        using assms(1,3) Cons Nil hf by (auto simp: advance_def proc_ok_def handler_frame.simps)
      then have "proc_ok l m q fs k r \<and> end_ok m q fs k"
        using assms(1) Cons Child_handler Nil hf(2) by (auto simp: proc_ok_def end_ok_def closes_left_def)
      then show ?thesis by blast
    qed (use hf(1) in \<open>simp add: handler_frame.simps\<close>)
  qed
qed

lemma proc_reachable_ok:
  assumes "(proc_step l)\<^sup>*\<^sup>* (start_process m) p"
  shows "\<exists>ups k r. proc_ok l m p ups k r \<and> end_ok m p ups k"
  using assms
proof (induction rule: rtranclp_induct)
  case base
  then show ?case using proc_ok_start by blast
next
  case (step p q)
  then obtain ups k r where p: "proc_ok l m p ups k r" "end_ok m p ups k" by blast
  from step(2) show ?case
  proof cases
    case Advance
    then show ?thesis using proc_ok_advance p by blast
  next
    case (Signal s)
    then show ?thesis using proc_ok_deliver [OF p(1)] by blast
  next
    case (Child wp)
    then show ?thesis using proc_ok_child [OF p(1)] by blast
  qed
qed

section \<open>Running undisturbed\<close>

abbreviation proceeds :: "int \<Rightarrow> process \<Rightarrow> process \<Rightarrow> bool" where
  "proceeds l \<equiv> (\<lambda>p q. advance l p = Some q)\<^sup>*\<^sup>*"

lemma proceeds_steps: "proceeds l p q \<Longrightarrow> (proc_step l)\<^sup>*\<^sup>* p q"
  by (induction rule: rtranclp_induct) (auto intro: rtranclp.rtrancl_into_rtrancl Advance)

lemma proceeds_drain:
  assumes "halted p = None" "frames p = f # fs"
  shows "proceeds l p (p\<lparr>frames := f\<lparr>todo := []\<rparr> # fs, logged := logged p @ todo f\<rparr>)"
  using assms
proof (induction "todo f" arbitrary: p f)
  case Nil
  then have "p\<lparr>frames := f\<lparr>todo := []\<rparr> # fs, logged := logged p @ todo f\<rparr> = p" by (cases p, cases f) simp
  then show ?case by simp
next
  case (Cons e es)
  let ?q = "p\<lparr>frames := f\<lparr>todo := es\<rparr> # fs, logged := logged p @ [e]\<rparr>"
  have t: "todo f = e # es" using Cons.hyps(2) by simp
  have "advance l p = Some ?q" using Cons.prems t by (simp add: advance_def)
  moreover have "proceeds l ?q (?q\<lparr>frames := f\<lparr>todo := es, todo := []\<rparr> # fs, logged := logged ?q @ es\<rparr>)"
    using Cons.hyps(1) [of "f\<lparr>todo := es\<rparr>" ?q] Cons.prems by simp
  ultimately have "proceeds l p (?q\<lparr>frames := f\<lparr>todo := es, todo := []\<rparr> # fs, logged := logged ?q @ es\<rparr>)"
    by (rule converse_rtranclp_into_rtranclp)
  then show ?case using t by simp
qed

text \<open>Left alone, a process ends or waits; the process at the end is determined by its top frame.\<close>

lemma proceeds_exit:
  assumes "halted p = None" "frames p = f # fs" "outcome f = Inl (Exit n)"
  shows "\<exists>q. proceeds l p q \<and> halted q = Some (Exit n) \<and> logged q = logged p @ todo f"
proof -
  let ?q = "p\<lparr>frames := f\<lparr>todo := []\<rparr> # fs, logged := logged p @ todo f\<rparr>"
  have "advance l ?q = Some (?q\<lparr>halted := Some (Exit n)\<rparr>)" using assms by (simp add: advance_def)
  with proceeds_drain [OF assms(1,2), of l] have "proceeds l p (?q\<lparr>halted := Some (Exit n)\<rparr>)"
    by (rule rtranclp.rtrancl_into_rtrancl)
  then show ?thesis by (intro exI [of _ "?q\<lparr>halted := Some (Exit n)\<rparr>"]) simp
qed

lemma proceeds_handler:
  assumes "halted p = None"
  shows "\<exists>q. proceeds l (deliver l s p) q \<and> halted q = Some (Exit (sig_status s)) \<and> logged q = logged p @ clean_up l"
  using proceeds_exit [of "deliver l s p" "frame_of (Handler s) (parent_sig_handler l (signo s))" "frames p" "sig_status s" l] assms
  by (simp add: deliver_def frame_of_def handler_run)

text \<open>The program alone on the stack.\<close>

lemma proceeds_program:
  shows "snd m = Inr () \<Longrightarrow> \<exists>q. proceeds l (start_process m) q \<and> halted q = None \<and> logged q = fst m \<and>
      frames q = [\<lparr>runs = Program, todo = [], outcome = Inr ()\<rparr>]"
    and "snd m = Inl h \<Longrightarrow> h \<noteq> Hang \<Longrightarrow> \<exists>q. proceeds l (start_process m) q \<and>
      halted q = Some (case snd (with_segv l m) of Inl h' \<Rightarrow> h' | Inr _ \<Rightarrow> Hang) \<and> logged q = fst (with_segv l m)"
proof -
  let ?p = "start_process m"
  let ?q = "?p\<lparr>frames := [(frame_of Program m)\<lparr>todo := []\<rparr>], logged := fst m\<rparr>"
  have d: "proceeds l ?p ?q"
    using proceeds_drain [of ?p "frame_of Program m" "[]" l] by (simp add: start_process_def frame_of_def)
  show "\<exists>q. proceeds l ?p q \<and> halted q = None \<and> logged q = fst m \<and> frames q = [\<lparr>runs = Program, todo = [], outcome = Inr ()\<rparr>]"
    if "snd m = Inr ()"
    using d that by (intro exI [of _ ?q]) (simp add: start_process_def frame_of_program)
  assume h: "snd m = Inl h" "h \<noteq> Hang"
  have q: "halted ?q = None" "handled ?q = []" by (simp_all add: start_process_def handled_def frame_of_def)
  show "\<exists>q. proceeds l ?p q \<and> halted q = Some (case snd (with_segv l m) of Inl h' \<Rightarrow> h' | Inr _ \<Rightarrow> Hang) \<and>
      logged q = fst (with_segv l m)"
  proof (cases "\<exists>x. h = Crash x \<and> first_page x")
    case True
    then have "advance l ?q = Some (deliver l Segv ?q)" using q h by (auto simp: advance_def frame_of_def)
    then have "proceeds l ?p (deliver l Segv ?q)" using d by (rule rtranclp.rtrancl_into_rtrancl [rotated])
    then show ?thesis
      using proceeds_handler [OF q(1), of l Segv] True h handler_run [of l Segv]
      by (auto simp: with_segv_def intro: rtranclp_trans)
  next
    case False
    then have "advance l ?q = Some (?q\<lparr>halted := Some h\<rparr>)"
      using q h by (cases h) (auto simp: advance_def frame_of_def)
    then have "proceeds l ?p (?q\<lparr>halted := Some h\<rparr>)" using d by (rule rtranclp.rtrancl_into_rtrancl [rotated])
    moreover have "with_segv l m = m" using False h by (auto simp: with_segv_def split: halt.splits)
    ultimately show ?thesis using h by (intro exI [of _ "?q\<lparr>halted := Some h\<rparr>"]) simp
  qed
qed

lemma with_segv_seq: "with_segv l (seq m k) = seq (with_segv l m) (with_segv l k)"
  using handler_run [of l Segv]
  by (cases "snd m"; cases "snd k") (auto simp: with_segv_def prod_eq_iff fst_snd_seq split: sum.splits halt.splits)

lemma serve_loop_accepts:
  "serve_loop l root (map (\<lambda>(w, e). Accept w e) cs) = with_segv l (accept_loop root cs)"
proof (induction cs)
  case (Cons c cs)
  have "with_segv l (emit (Close w)) = emit (Close w)" for w by (simp add: with_segv_def emit_def)
  then show ?case using Cons by (cases c) (simp add: with_segv_seq)
qed (simp add: with_segv_def)

section \<open>What the loop itself closes\<close>

fun closes_nothing :: "event \<Rightarrow> bool" where
  "closes_nothing (Close _) = False"
| "closes_nothing _ = True"

lemma quiet_closes_nothing: "log_all quiet m \<Longrightarrow> log_all closes_nothing m"
  unfolding log_all_def list_all_iff by (metis closes_nothing.simps(2-6) quiet.elims(2))

lemma faults_close_nothing: "log_all is_fault m \<Longrightarrow> log_all closes_nothing m"
  by (intro quiet_closes_nothing) (auto simp: log_all_def list_all_iff is_fault_quiet)

lemma respond_closes_nothing: "log_all closes_nothing (respond e sock root)"
proof -
  have snd: "log_all closes_nothing (sendall wr buf len)" for wr buf len
    unfolding sendall_def by (auto intro!: log_intros split: option.splits)
  have rf: "log_all closes_nothing (readFile fs p)" for fs p
    unfolding readFile_def Let_def by (auto simp: itoa_minus_one intro!: log_intros)
  have lw: "log_all closes_nothing (lit_write s t n)" for s t n unfolding lit_write_def by (auto intro!: log_intros)
  have fd: "log_all closes_nothing (sendall_to_fd d)" for d unfolding sendall_to_fd_def by (intro log_intros)
  have route: "log_all closes_nothing (routeClient fs r s root)" for fs r s
    unfolding routeClient_def route_get_def Let_def by (intro log_intros rf lw fd) simp_all
  show ?thesis
    unfolding respond_def split_def getResponseLen_def
    by (intro log_intros snd route quiet_closes_nothing [OF configServerSSL_quiet] quiet_closes_nothing [OF readall_quiet]
        faults_close_nothing [OF parseRequest_faults]) simp_all
qed

lemma accept_loop_closes: "l \<notin> fst ` set cs \<Longrightarrow> Close l \<notin> set (fst (accept_loop root cs))"
proof (induction cs)
  case (Cons c cs)
  have "Close l \<notin> set (fst (respond e w root))" for e w
    by (rule log_all_not [OF respond_closes_nothing]) simp
  then show ?case using Cons by (cases c) (auto simp: fst_snd_seq emit_def split: sum.splits)
qed simp

lemma sent_clean_up: "set r \<subseteq> set (clean_up l) \<Longrightarrow> sent fd r = []"
  by (induction r) (auto simp: clean_up_def)

section \<open>Properties\<close>

text \<open>C7. Signals at any moment do no harm to the clients. However the four signals and \<^verbatim>\<open>SIGCHLD\<close> interrupt the accept loop
  and each other, in every state that can be reached: what any socket has been sent is a prefix of what the undisturbed
  loop sends to it; the events of the loop so far are its first ones, in order, followed by clean-up events only once a signal
  is being handled; the handlers are nested at most four deep; \<^verbatim>\<open>errno\<close> is as it was; and the listening socket has been closed at
  most once for each signal being handled.\<close>

theorem signals_interleave_safely:
  assumes "(proc_step l)\<^sup>*\<^sup>* (start_process (accept_loop root cs)) p" "l \<noteq> 0" "l \<notin> fst ` set cs"
  shows "prefix (sent fd (logged p)) (sent fd (fst (accept_loop root cs))) \<and>
    (\<exists>k r. logged p = take k (fst (accept_loop root cs)) @ r \<and> set r \<subseteq> set (clean_up l) \<and> (handled p = [] \<longrightarrow> r = [])) \<and>
    distinct (handled p) \<and> length (handled p) \<le> 4 \<and> cerrno p = 0 \<and>
    count_list (logged p) (Close l) \<le> length (handled p)"
proof -
  let ?m = "accept_loop root cs"
  from proc_reachable_ok [OF assms(1)] obtain ups k r where ok: "proc_ok l ?m p ups k r" by blast
  have h: "handled p = sigs ups" using ok by (simp add: proc_ok_def handled_sigs)
  have lg: "logged p = take k (fst ?m) @ r" "set r \<subseteq> set (clean_up l)" "handled p = [] \<longrightarrow> r = []" "distinct (handled p)"
    using ok h by (simp_all add: proc_ok_def)
  have "sent fd (fst ?m) = sent fd (take k (fst ?m)) @ sent fd (drop k (fst ?m))"
    by (metis append_take_drop_id sent_simps(2))
  then have pre: "prefix (sent fd (logged p)) (sent fd (fst ?m))" using lg sent_clean_up [of r l fd] by simp
  have "Close l \<notin> set (take k (fst ?m))" using accept_loop_closes [OF assms(3)] in_set_takeD by metis
  then have "count_list (take k (fst ?m)) (Close l) = 0" by (simp add: count_list_0_iff)
  then have cl: "count_list (logged p) (Close l) \<le> length (handled p)" using ok h lg(1) assms(2) by (simp add: proc_ok_def)
  have "cerrno p = 0"
    using assms(1)
  proof (induction rule: rtranclp_induct)
    case (step p q)
    from step(2,3) show ?case
    proof cases
      case Advance
      then show ?thesis using step(3)
        by (auto simp: advance_def deliver_def split: option.splits list.splits sum.splits halt.splits if_splits)
    next
      case (Child wp)
      then show ?thesis using step(3) child_run [of wp "cerrno p"] by (auto simp: deliver_child_def Let_def)
    qed (simp add: deliver_def)
  qed (simp add: start_process_def)
  with pre lg cl signals_at_most_four [OF lg(4)] show ?thesis by blast
qed

text \<open>Two signals, the second while the first is being handled: the listening socket is closed twice, and the status is that of the
  second.\<close>

definition two_signals :: process where
  "two_signals = deliver 3 Intr (the (advance 3 (deliver 3 Hup (start_process (accept_loop None [])))))"

lemma two_signals_reached:
  "\<exists>q. (proc_step 3)\<^sup>*\<^sup>* (start_process (accept_loop None [])) q \<and> halted q = Some (Exit 2) \<and>
     logged q = [Close 3] @ clean_up 3 \<and> handled q = [Intr, Hup]"
proof -
  let ?p0 = "start_process (accept_loop None [])"
  let ?p1 = "deliver 3 Hup ?p0"
  let ?p2 = "the (advance 3 ?p1)"
  have a: "advance 3 ?p1 = Some ?p2" "halted ?p2 = None" "logged ?p2 = [Close 3]" "handled ?p2 = [Hup]"
    by (simp_all add: advance_def deliver_eq start_process_def frame_of_def clean_up_def handled_def)
  have "proc_step 3 ?p0 ?p1" by (rule Signal) (simp_all add: start_process_def handled_def frame_of_def)
  moreover have "proc_step 3 ?p1 ?p2" using a(1) by (rule Advance)
  moreover have "proc_step 3 ?p2 two_signals"
    unfolding two_signals_def by (rule Signal) (use a in simp_all)
  ultimately have r: "(proc_step 3)\<^sup>*\<^sup>* ?p0 two_signals"
    by (intro rtranclp.rtrancl_into_rtrancl [OF rtranclp.rtrancl_into_rtrancl [OF r_into_rtranclp]])
  let ?f = "\<lparr>runs = Handler Intr, todo = clean_up 3, outcome = Inl (Exit (sig_status Intr))\<rparr>"
  have t: "frames two_signals = ?f # frames ?p2" "halted two_signals = None" "logged two_signals = [Close 3]"
    using a by (simp_all add: two_signals_def deliver_eq)
  let ?q = "two_signals\<lparr>frames := ?f\<lparr>todo := []\<rparr> # frames ?p2, logged := [Close 3] @ clean_up 3\<rparr>"
  have d: "proceeds 3 two_signals ?q"
    using proceeds_drain [OF t(2,1), of 3] t(3) by simp
  have "advance 3 ?q = Some (?q\<lparr>halted := Some (Exit 2)\<rparr>)"
    using t by (simp add: advance_def)
  with d have "proceeds 3 two_signals (?q\<lparr>halted := Some (Exit 2)\<rparr>)" by (rule rtranclp.rtrancl_into_rtrancl)
  with r have "(proc_step 3)\<^sup>*\<^sup>* ?p0 (?q\<lparr>halted := Some (Exit 2)\<rparr>)" using proceeds_steps rtranclp_trans by metis
  moreover have "handled (?q\<lparr>halted := Some (Exit 2)\<rparr>) = [Intr, Hup]" using a(4) by (simp add: handled_def)
  ultimately show ?thesis by (intro exI [of _ "?q\<lparr>halted := Some (Exit 2)\<rparr>"]) simp
qed

theorem signals_interleave_safely_witness:
  "\<exists>q. handled q = [Intr, Hup] \<and> count_list (logged q) (Close 3) = 2 \<and> count_list (logged q) (Close 3) \<le> length (handled q)"
proof -
  from two_signals_reached obtain q where q: "(proc_step 3)\<^sup>*\<^sup>* (start_process (accept_loop None [])) q"
    "logged q = [Close 3] @ clean_up 3" "handled q = [Intr, Hup]" by blast
  with signals_interleave_safely [OF q(1), of 4] show ?thesis by (intro exI [of _ q]) (simp add: clean_up_def)
qed

text \<open>C8. How the server process ends. In every interleaving: when no signal is being handled at its end, it has done exactly the
  undisturbed loop and ended as that does; otherwise its status is that of the signal delivered last, and nothing
  is lost or reordered on the way. And from every state in which a signal is being handled and no handler of
  \<^verbatim>\<open>SIGCHLD\<close> is running, the process does end with the status of the latest signal if it is left alone.\<close>

theorem process_exit_status:
  assumes "(proc_step l)\<^sup>*\<^sup>* (start_process (accept_loop root cs)) p"
  shows "(\<forall>h. halted p = Some h \<longrightarrow>
      (if handled p = [] then logged p = fst (accept_loop root cs) \<and> snd (accept_loop root cs) = Inl h
       else h = Exit (sig_status (hd (handled p))))) \<and>
    (handled p \<noteq> [] \<and> \<not> child_blocked p \<longrightarrow>
      (\<exists>q. proceeds l p q \<and> halted q = Some (Exit (sig_status (hd (handled p))))))"
proof -
  let ?m = "accept_loop root cs"
  from proc_reachable_ok [OF assms(1)] obtain ups k r where ok: "proc_ok l ?m p ups k r" "end_ok ?m p ups k" by blast
  have h: "handled p = sigs ups" using ok by (simp add: proc_ok_def handled_sigs)
  have e: "if handled p = [] then logged p = fst ?m \<and> snd ?m = Inl x else x = Exit (sig_status (hd (handled p)))"
    if "halted p = Some x" for x
    using ok h that by (cases ups) (auto simp: end_ok_def proc_ok_def)
  have "\<exists>q. proceeds l p q \<and> halted q = Some (Exit (sig_status (hd (handled p))))"
    if a: "handled p \<noteq> []" "\<not> child_blocked p"
  proof (cases "halted p")
    case None
    obtain f fs where f: "ups = f # fs" using a(1) h by (cases ups) auto
    have fr: "frames p = f # fs @ [\<lparr>runs = Program, todo = drop k (fst ?m), outcome = snd ?m\<rparr>]" "handler_frame l f"
      using ok f by (simp_all add: proc_ok_def)
    then obtain s where s: "runs f = Handler s" "outcome f = Inl (Exit (sig_status s))"
      using a(2) by (auto simp: handler_frame.simps child_blocked_def split: runner.splits)
    from proceeds_exit [OF None fr(1) s(2), of l] s(1) f h show ?thesis by auto
  next
    case (Some x)
    then show ?thesis using e [of x] a(1) by (intro exI [of _ p]) simp
  qed
  with e show ?thesis by blast
qed

theorem process_exit_status_witness:
  "\<exists>q. (proc_step 3)\<^sup>*\<^sup>* (start_process (accept_loop None [])) q \<and> handled q = [Intr, Hup] \<and>
     halted q = Some (Exit (sig_status Intr))"
proof -
  from two_signals_reached obtain q where q: "(proc_step 3)\<^sup>*\<^sup>* (start_process (accept_loop None [])) q"
    "halted q = Some (Exit 2)" "handled q = [Intr, Hup]" by blast
  with process_exit_status [OF q(1)] show ?thesis by (intro exI [of _ q]) simp
qed



section \<open>The number of steps\<close>

text \<open>A step that is not the delivery of \<^verbatim>\<open>SIGCHLD\<close>, and a bound on how many of them can follow: the events on the stack, the frames,
  and for each signal not yet being handled the events of its handler, its frame and its exit.\<close>

definition own_step :: "int \<Rightarrow> process \<Rightarrow> process \<Rightarrow> bool" where
  "own_step l p q \<longleftrightarrow> advance l p = Some q \<or> (halted p = None \<and> (\<exists>s. s \<notin> set (handled p) \<and> q = deliver l s p))"

definition weight :: "int \<Rightarrow> process \<Rightarrow> nat" where
  "weight l p =
     (4 - length (handled p)) * (length (clean_up l) + 2) + sum_list (map (\<lambda>f. length (todo f)) (frames p)) +
     length (frames p) + (if halted p = None then 1 else 0)"

lemma weight_deliver:
  assumes "distinct (handled p)" "s \<notin> set (handled p)"
  shows "weight l (deliver l s p) < weight l p"
proof -
  have "handled (deliver l s p) = s # handled p" by (simp add: handled_def deliver_eq)
  moreover have "length (s # handled p) \<le> 4" by (rule signals_at_most_four) (use assms in simp)
  then obtain n where "4 - length (handled p) = Suc n" "4 - length (s # handled p) = n"
    by (cases "4 - length (handled p)") auto
  ultimately show ?thesis by (simp add: weight_def deliver_eq)
qed

lemma own_step_proc: "own_step l p q \<Longrightarrow> proc_step l p q"
  by (auto simp: own_step_def intro: proc_step.intros)

lemma weight_own_step:
  assumes "own_step l p q" "proc_ok l m p ups k r"
  shows "weight l q < weight l p"
proof -
  have d: "distinct (handled p)" using assms(2) by (simp add: proc_ok_def handled_sigs)
  from assms(1) consider "advance l p = Some q" | s where "s \<notin> set (handled p)" "q = deliver l s p"
    unfolding own_step_def by blast
  then show ?thesis
  proof cases
    case 1
    then obtain f fs where f: "frames p = f # fs" "halted p = None"
      by (auto simp: advance_def split: option.splits list.splits)
    have nr: "fs = [] \<or> outcome f \<noteq> Inr () \<or> (\<forall>s. runs f \<noteq> Handler s)"
      using assms(2) f by (cases ups) (auto simp: proc_ok_def handler_frame.simps split: runner.splits)
    show ?thesis
    proof (cases "q = deliver l Segv p \<and> Segv \<notin> set (handled p)")
      case False
      then show ?thesis
        using 1 f nr
        by (auto simp: advance_def weight_def handled_sigs split: list.splits sum.splits halt.splits if_splits runner.splits)
    qed (use weight_deliver [OF d] in blast)
  qed (use weight_deliver [OF d] in blast)
qed

text \<open>C10. No storm of the four signals keeps the server from ending: from every reachable state, only so many steps are possible
  without a \<^verbatim>\<open>SIGCHLD\<close> as the weight of the state says, whatever the order of the signals; for the loop as it starts
  that is its number of events, two, and six more for each signal.\<close>

theorem signal_storm_ends:
  assumes "(proc_step l)\<^sup>*\<^sup>* (start_process (accept_loop root cs)) p" "(own_step l ^^ n) p q"
  shows "n \<le> weight l p \<and>
    (l \<noteq> 0 \<longrightarrow> weight l (start_process (accept_loop root cs)) = length (fst (accept_loop root cs)) + 2 + 4 * 6)"
proof
  let ?reach = "(proc_step l)\<^sup>*\<^sup>* (start_process (accept_loop root cs))"
  have "n + weight l q \<le> weight l p" if "(own_step l ^^ n) p q" "?reach p" for n p q
    using that
  proof (induction n arbitrary: p)
    case (Suc n)
    from relpowp_Suc_D2 [OF Suc.prems(1)] obtain p' where p': "own_step l p p'" "(own_step l ^^ n) p' q" by blast
    then have "?reach p'" using Suc.prems(2) own_step_proc rtranclp.rtrancl_into_rtrancl by metis
    moreover have "weight l p' < weight l p"
      using proc_reachable_ok [OF Suc.prems(2)] weight_own_step [OF p'(1)] by blast
    ultimately show ?case using Suc.IH [OF p'(2)] by simp
  qed simp
  with assms show "n \<le> weight l p" by fastforce
  show "l \<noteq> 0 \<longrightarrow> weight l (start_process (accept_loop root cs)) = length (fst (accept_loop root cs)) + 2 + 4 * 6"
    by (simp add: weight_def start_process_def handled_def frame_of_def clean_up_def)
qed

theorem signal_storm_ends_witness:
  "{n. \<exists>q. (own_step 3 ^^ n) (start_process (accept_loop None [])) q} \<subseteq> {..26}"
proof
  fix n
  assume "n \<in> {n. \<exists>q. (own_step 3 ^^ n) (start_process (accept_loop None [])) q}"
  then obtain q where "(own_step 3 ^^ n) (start_process (accept_loop None [])) q" by blast
  from signal_storm_ends [OF _ this, of None "[]"] show "n \<in> {..26}" by simp
qed

end
