(* ===== verification/Exec_Time.thy ===== *)
theory Exec_Time
  imports C_Prelude Complex_Main "HOL-Library.Log_Nat"
begin

text \<open>
  \<^verbatim>\<open>calcExecTime\<close> of \<^verbatim>\<open>src/test/oop_test.c\<close>: the time between two readings of the clock, in seconds, as a \<^verbatim>\<open>double\<close>. The
  arithmetic is that of IEEE 754: each operation gives the exact result rounded to 53 significant bits, to nearest, ties to even.
  A \<^verbatim>\<open>double\<close> is the rational number it stands for; the numbers here are 0 or between \<open>10 ^ - 6\<close> and \<open>2 ^ 65\<close>, far from the
  ends of the range, so infinities and subnormal numbers do not occur.
\<close>

section \<open>Rounding\<close>

definition rne :: "rat \<Rightarrow> int" where
  "rne x =
     (let f = \<lfloor>x\<rfloor>; d = x - of_int f in
      if d < 1 / 2 then f else if d > 1 / 2 then f + 1 else if even f then f else f + 1)"

text \<open>The binary exponent: \<open>2 ^ expo x \<le> |x| < 2 ^ (expo x + 1)\<close>.\<close>

definition expo :: "rat \<Rightarrow> int" where
  "expo x =
     (let (n, d) = quotient_of \<bar>x\<bar>; e = bitlen n - bitlen d in
      if \<bar>x\<bar> < 2 powi e then e - 1 else e)"

definition to_double :: "rat \<Rightarrow> rat" where
  "to_double x =
     (if x = 0 then 0 else let u = 2 powi (expo x - 52) in of_int (rne (x / u)) * u)"


section \<open>The function\<close>

record timeval =
  tv_sec :: int
  tv_usec :: int

definition long_sub :: "string \<Rightarrow> int \<Rightarrow> int \<Rightarrow> int run" where
  "long_sub what a b =
     seq (if - (2 ^ 63) \<le> a - b \<and> a - b < 2 ^ 63 then ret () else emit (Fault (SignedOverflow what))) (ret (a - b))"

definition calcExecTime :: "timeval \<Rightarrow> timeval \<Rightarrow> rat run" where
  "calcExecTime tv1 tv2 =
     bind (long_sub ''tv_usec'' (tv_usec tv2) (tv_usec tv1)) (\<lambda>du.
     bind (long_sub ''tv_sec'' (tv_sec tv2) (tv_sec tv1)) (\<lambda>ds.
       ret (to_double (to_double (to_double (of_int du) / 1000000) + to_double (of_int ds)))))"


section \<open>Lemmas\<close>

lemma rne_error: "\<bar>of_int (rne x) - x\<bar> \<le> 1 / 2"
proof -
  define f where "f = \<lfloor>x\<rfloor>"
  have "of_int f \<le> x" "x < of_int f + 1" unfolding f_def by linarith+
  then show ?thesis unfolding rne_def Let_def f_def [symmetric] abs_if by (auto simp: field_simps)
qed

lemma rne_int [simp]: "rne (of_int n) = n"
  by (simp add: rne_def)

lemma rne_nonneg: "0 \<le> x \<Longrightarrow> 0 \<le> rne x"
  by (simp add: rne_def Let_def)

lemma expo_bounds:
  assumes "x \<noteq> 0"
  shows "2 powi expo x \<le> \<bar>x\<bar>" "\<bar>x\<bar> < 2 powi (expo x + 1)"
proof -
  obtain n d where q: "quotient_of \<bar>x\<bar> = (n, d)" by fastforce
  have d: "0 < d" using quotient_of_denom_pos [OF q] .
  have x: "\<bar>x\<bar> = of_int n / of_int d" using quotient_of_div [OF q] .
  then have n: "0 < n" using assms d by (metis abs_of_pos divide_nonpos_pos not_le of_int_0_less_iff of_int_le_0_iff zero_less_abs_iff)
  let ?e = "bitlen n - bitlen d"
  have b: "2 powi (bitlen k - 1) \<le> (of_int k :: rat) \<and> of_int k < (2 :: rat) powi bitlen k" if "0 < k" for k
  proof -
    have "1 \<le> bitlen k" using that by (simp add: bitlen_alt_def)
    moreover have "2 ^ nat (bitlen k - 1) \<le> k" "k < 2 ^ nat (bitlen k)" using bitlen_bounds [OF that] by auto
    then have "(of_int (2 ^ nat (bitlen k - 1)) :: rat) \<le> of_int k" "(of_int k :: rat) < of_int (2 ^ nat (bitlen k))"
      by (simp_all only: of_int_le_iff of_int_less_iff)
    ultimately show ?thesis by (simp add: power_int_def)
  qed
  have lo: "2 powi (?e - 1) \<le> \<bar>x\<bar>" and hi: "\<bar>x\<bar> < 2 powi (?e + 1)"
  proof -
    have "2 powi (?e - 1) = (2 powi (bitlen n - 1) :: rat) / 2 powi bitlen d"
      by (simp flip: power_int_diff) (simp add: algebra_simps)
    also have "\<dots> \<le> of_int n / of_int d" using b [OF n] b [OF d] n d by (intro frac_le) auto
    finally show "2 powi (?e - 1) \<le> \<bar>x\<bar>" using x by simp
    have "of_int n / of_int d < (2 powi bitlen n :: rat) / 2 powi (bitlen d - 1)"
      using b [OF n] b [OF d] n by (intro frac_less) auto
    also have "\<dots> = 2 powi (?e + 1)" by (simp flip: power_int_diff) (simp add: algebra_simps)
    finally show "\<bar>x\<bar> < 2 powi (?e + 1)" using x by simp
  qed
  then show "2 powi expo x \<le> \<bar>x\<bar>" "\<bar>x\<bar> < 2 powi (expo x + 1)" using q by (auto simp: expo_def Let_def)
qed

text \<open>The relative error of one operation.\<close>

lemma to_double_error: "\<bar>to_double x - x\<bar> \<le> \<bar>x\<bar> / 2 ^ 53"
proof (cases "x = 0")
  case False
  let ?u = "2 powi (expo x - 52) :: rat"
  have u: "0 < ?u" by simp
  have "to_double x - x = (of_int (rne (x / ?u)) - x / ?u) * ?u" using False by (simp add: to_double_def Let_def algebra_simps)
  then have "\<bar>to_double x - x\<bar> = \<bar>of_int (rne (x / ?u)) - x / ?u\<bar> * ?u" using u by (simp add: abs_mult)
  also have "\<dots> \<le> 1 / 2 * ?u" using rne_error [of "x / ?u"] u by (intro mult_right_mono) auto
  also have "\<dots> = 2 powi expo x / 2 ^ 53" by (simp add: power_int_diff)
  also have "\<dots> \<le> \<bar>x\<bar> / 2 ^ 53" using expo_bounds(1) [OF False] by (intro divide_right_mono) auto
  finally show ?thesis .
qed (simp add: to_double_def)

lemma to_double_nonneg: "0 \<le> x \<Longrightarrow> 0 \<le> to_double x"
  by (simp add: to_double_def Let_def rne_nonneg)

text \<open>A whole number of at most 53 bits is a \<^verbatim>\<open>double\<close>.\<close>

lemma to_double_int:
  assumes "\<bar>n\<bar> < 2 ^ 53"
  shows "to_double (of_int n) = of_int n"
proof (cases "n = 0")
  case False
  let ?x = "of_int n :: rat"
  have "(2 :: rat) powi expo ?x \<le> of_int \<bar>n\<bar>" using expo_bounds(1) [of ?x] False by simp
  also have "\<dots> < of_int (2 ^ 53)" using assms by (simp only: of_int_less_iff)
  finally have "(2 :: rat) powi expo ?x < 2 powi 53" by simp
  then have e: "expo ?x < 53" using power_int_increasing [of 53 "expo ?x" "2 :: rat"] by (auto simp: not_less [symmetric])
  then obtain k where k: "52 - expo ?x = int k" using nonneg_int_cases [of "52 - expo ?x"] by auto
  have inv: "(2 :: rat) powi (52 - expo ?x) * 2 powi (expo ?x - 52) = 1" by (simp flip: power_int_add)
  then have "?x / 2 powi (expo ?x - 52) = ?x * 2 powi (52 - expo ?x)" by (simp add: field_simps)
  also have "\<dots> = of_int (n * 2 ^ k)" using k by simp
  finally have "rne (?x / 2 powi (expo ?x - 52)) = n * 2 ^ k" by (simp only: rne_int)
  moreover have "(2 :: rat) ^ k * 2 powi (expo ?x - 52) = 1" using inv k by simp
  ultimately show ?thesis using False by (simp add: to_double_def Let_def mult.assoc)
qed (simp add: to_double_def)

section \<open>The property\<close>

text \<open>A reading of the clock: the microseconds are less than a second.\<close>

definition clock_reading :: "timeval \<Rightarrow> bool" where
  "clock_reading tv \<longleftrightarrow> 0 \<le> tv_sec tv \<and> tv_sec tv < 2 ^ 53 \<and> 0 \<le> tv_usec tv \<and> tv_usec tv < 1000000"

definition seconds :: "timeval \<Rightarrow> rat" where
  "seconds tv = of_int (tv_sec tv) + of_int (tv_usec tv) / 1000000"

text \<open>C38. For two readings of the clock \<^verbatim>\<open>calcExecTime\<close> computes the time between them without overflow, with an error of at most
  two units of \<open>2 ^ - 53\<close> seconds plus one part in \<open>2 ^ 53\<close> of the time; and it is never negative when the second reading
  is not before the first, although the difference of the microseconds may be.\<close>

theorem calcExecTime_accurate:
  assumes "clock_reading tv1" "clock_reading tv2"
  shows "\<exists>t. calcExecTime tv1 tv2 = ret t \<and>
    \<bar>t - (seconds tv2 - seconds tv1)\<bar> \<le> (\<bar>seconds tv2 - seconds tv1\<bar> + 2) / 2 ^ 53 \<and>
    (seconds tv1 \<le> seconds tv2 \<longrightarrow> 0 \<le> t)"
proof -
  define du ds where defs: "du = tv_usec tv2 - tv_usec tv1" "ds = tv_sec tv2 - tv_sec tv1"
  let ?q = "to_double (of_int du / 1000000)"
  let ?t = "to_double (?q + of_int ds)"
  let ?x = "seconds tv2 - seconds tv1"
  have r: "\<bar>du\<bar> < 1000000" "\<bar>ds\<bar> < 2 ^ 53" using assms by (auto simp: clock_reading_def defs)
  then have d: "to_double (of_int du) = of_int du" "to_double (of_int ds) = of_int ds"
    by (auto intro!: to_double_int simp: abs_if split: if_splits)
  then have run: "calcExecTime tv1 tv2 = ret ?t"
    using r by (auto simp: calcExecTime_def long_sub_def simp flip: defs)
  have du: "\<bar>of_int du :: rat\<bar> < 1000000" using r(1) by (metis of_int_abs of_int_less_iff of_int_numeral)
  have q: "\<bar>?q - of_int du / 1000000\<bar> \<le> 1 / 2 ^ 53"
    by (rule order_trans [OF to_double_error]) (use du in \<open>simp add: field_simps\<close>)
  have x: "?x = of_int ds + of_int du / 1000000" by (simp add: seconds_def defs field_simps)
  let ?y = "?q + of_int ds"
  have y: "\<bar>?y - ?x\<bar> \<le> 1 / 2 ^ 53" using q x by simp
  then have "\<bar>?y\<bar> / 2 ^ 53 \<le> (\<bar>?x\<bar> + 1) / 2 ^ 53"
    by (intro divide_right_mono) (auto simp: abs_if split: if_splits)
  with to_double_error [of ?y] have t: "\<bar>?t - ?y\<bar> \<le> (\<bar>?x\<bar> + 1) / 2 ^ 53" by linarith
  have "\<bar>?t - ?x\<bar> \<le> \<bar>?t - ?y\<bar> + \<bar>?y - ?x\<bar>" using abs_triangle_ineq [of "?t - ?y" "?y - ?x"] by simp
  also have "\<dots> \<le> (\<bar>?x\<bar> + 1) / 2 ^ 53 + 1 / 2 ^ 53" using t y by (rule add_mono)
  finally have err: "\<bar>?t - ?x\<bar> \<le> (\<bar>?x\<bar> + 2) / 2 ^ 53" by (simp add: field_simps)
  have "0 \<le> ?t" if le: "seconds tv1 \<le> seconds tv2"
  proof (rule to_double_nonneg, cases "ds \<le> 0")
    case True
    have "du \<ge> 0 \<and> ds = 0"
    proof -
      have "0 \<le> of_int ds + (of_int du :: rat) / 1000000" using le x by simp
      then have "0 \<le> (of_int (ds * 1000000 + du) :: rat)" by (simp add: field_simps)
      then have "0 \<le> ds * 1000000 + du" by (simp only: of_int_0_le_iff)
      with True r(1) show ?thesis by linarith
    qed
    then show "0 \<le> ?q + of_int ds" using to_double_nonneg [of "of_int du / 1000000"] by simp
  next
    case False
    then have "1 \<le> (of_int ds :: rat)" by simp
    moreover have "- 999999 \<le> du" using r(1) by linarith
    then have "- 999999 \<le> (of_int du :: rat)" by (metis of_int_le_iff of_int_minus of_int_numeral)
    then have "- 1 \<le> ?q" using q by (simp add: abs_if field_simps split: if_splits)
    ultimately show "0 \<le> ?q + of_int ds" by simp
  qed
  with run err show ?thesis by blast
qed

theorem calcExecTime_accurate_witness:
  "\<exists>t. calcExecTime \<lparr>tv_sec = 5, tv_usec = 900000\<rparr> \<lparr>tv_sec = 6, tv_usec = 100000\<rparr> = ret t \<and> 0 \<le> t \<and> \<bar>t - 1 / 5\<bar> \<le> 11 / 5 / 2 ^ 53"
  using calcExecTime_accurate [of "\<lparr>tv_sec = 5, tv_usec = 900000\<rparr>" "\<lparr>tv_sec = 6, tv_usec = 100000\<rparr>"]
  by (auto simp: clock_reading_def seconds_def)

end
