(* ===== verification/Fawkes_Trace.thy ===== *)
theory Fawkes_Trace
  imports FawkesProto
begin

text \<open>
  What the functions of \<^verbatim>\<open>src/server/fawkes_proto.h\<close> print on standard output beside computing the information byte:
  every branch names the protocol, the method or the verdict it has found, and the branches that find nothing add the
  byte as \<open>printByteDebug\<close> shows it. The texts are functions of their own, so that the byte operations of \<open>FawkesProto\<close>
  stay pure; they follow the same tests in the same order.
\<close>

section \<open>The encoders\<close>

definition ANSI_COLOR_RED :: string where
  "ANSI_COLOR_RED = CHR 0x1B # ''[31m''"

definition in_red :: "string \<Rightarrow> string" where
  "in_red t = ANSI_COLOR_RED @ t @ [LF] @ ANSI_COLOR_RESET"

definition encodeProto_out :: "string \<Rightarrow> u8 \<Rightarrow> string" where
  "encodeProto_out proto info =
     (if strncmp proto ''HTTP/1.0'' 9 = 0 then ''Protocol detected: HTTP/1.0'' @ [LF]
      else if strncmp proto ''HTTP/1.1'' 9 = 0 then ''Protocol detected: HTTP/1.1'' @ [LF]
      else if strncmp proto ''HTTP/2.0'' 9 = 0 then ''Protocol detected: HTTP/2.0'' @ [LF]
      else in_red ''Protocol not supported'' @ printByteDebug info)
     @ ''setting the protocol'' @ [LF]"

text \<open>A method that is not NULL is never the literal \<^verbatim>\<open>""\<close> of the test for a missing one, so the last branch is taken for
  the empty name as well.\<close>

definition encodeMethod_out :: "string \<Rightarrow> u8 \<Rightarrow> string" where
  "encodeMethod_out method info =
     (if strncmp method ''GET'' 4 = 0 then ''Processing GET request'' @ [LF]
      else if strncmp method ''HEAD'' 5 = 0 then ''Processing HEAD request'' @ [LF]
      else if strncmp method ''POST'' 5 = 0 then ''Processing POST request'' @ [LF]
      else if strncmp method ''PUT'' 4 = 0 then ''Processing PUT request'' @ [LF]
      else if strncmp method ''DELETE'' 7 = 0 then ''Processing DELETE request'' @ [LF]
      else if strncmp method ''CONNECT'' 8 = 0 then ''Processing CONNECT request'' @ [LF]
      else if strncmp method ''OPTIONS'' 8 = 0 then ''Processing OPTIONS request'' @ [LF]
      else if strncmp method ''TRACE'' 6 = 0 then ''Processing TRACE request'' @ [LF]
      else in_red ''Request method not supported'' @ printByteDebug info)
     @ ''setting the method'' @ [LF]"

definition encodeReqmts_out :: "u8 \<Rightarrow> string" where
  "encodeReqmts_out info =
     (if get_proto info \<noteq> 0 \<and> get_method info \<noteq> 0 \<and> get_method info < 9 then ''Requirements inspection passed'' @ [LF]
      else in_red ''Malformed information byte (DROP)'' @ printByteDebug info)
     @ ''setting reqmts info'' @ [LF]"


section \<open>The decoders\<close>

definition decodeProto_out :: "u8 \<Rightarrow> string" where
  "decodeProto_out info =
     (if get_proto info = 1 then ''Protocol detected: HTTP/1.0'' @ [LF]
      else if get_proto info = 2 then ''Protocol detected: HTTP/1.1'' @ [LF]
      else if get_proto info = 3 then ''Protocol detected: HTTP/2.0'' @ [LF]
      else ''Protocol not supported'' @ [LF] @ printByteDebug info)"

definition decodeMethod_out :: "u8 \<Rightarrow> string" where
  "decodeMethod_out info =
     (if get_method info = 1 then ''Processing GET request'' @ [LF]
      else if get_method info = 2 then ''Processing HEAD request'' @ [LF]
      else if get_method info = 3 then ''Processing POST request'' @ [LF]
      else if get_method info = 4 then ''Processing PUT request'' @ [LF]
      else if get_method info = 5 then ''Processing DELETE request'' @ [LF]
      else if get_method info = 6 then ''Processing CONNECT request'' @ [LF]
      else if get_method info = 7 then ''Processing OPTIONS request'' @ [LF]
      else if get_method info = 8 then ''Processing TRACE request'' @ [LF]
      else if get_method info = 0 then ''Request method missing'' @ [LF] @ printByteDebug info
      else ''Request method not supported'' @ [LF] @ printByteDebug info)"

definition decodeReqmts_out :: "u8 \<Rightarrow> string" where
  "decodeReqmts_out info =
     (if get_reqmts info = 1 then ''Requirements inspection passed'' @ [LF]
      else if get_reqmts info = 2 then in_red ''Malformed request'' @ printByteDebug info
      else if get_reqmts info = 3 then ''Requirements not met'' @ [LF] @ printByteDebug info
      else ''Malformed information byte ($DROP)'' @ [LF] @ printByteDebug info)"


section \<open>Properties\<close>

text \<open>An encoder prints what the decoder prints for the byte it has stored, unless it has stored 0.\<close>

lemmas trace_defs = encodeProto_out_def decodeProto_out_def proto_code_def proto_field.get_put_small
  encodeMethod_out_def decodeMethod_out_def method_code_def method_field.get_put_small

lemma encodeProto_out_eq:
  "encodeProto_out p b =
     (if proto_code p = 0 then in_red ''Protocol not supported'' @ printByteDebug b
      else decodeProto_out (put_proto b (proto_code p))) @ ''setting the protocol'' @ [LF]"
  by (cases "strncmp p ''HTTP/1.0'' 9 = 0", simp add: trace_defs,
    cases "strncmp p ''HTTP/1.1'' 9 = 0", simp add: trace_defs,
    cases "strncmp p ''HTTP/2.0'' 9 = 0", simp add: trace_defs, simp add: trace_defs)

lemma encodeMethod_out_eq:
  "encodeMethod_out m b =
     (if method_code m = 0 then in_red ''Request method not supported'' @ printByteDebug b
      else decodeMethod_out (put_method b (method_code m))) @ ''setting the method'' @ [LF]"
  by (cases "strncmp m ''GET'' 4 = 0", simp add: trace_defs,
    cases "strncmp m ''HEAD'' 5 = 0", simp add: trace_defs,
    cases "strncmp m ''POST'' 5 = 0", simp add: trace_defs,
    cases "strncmp m ''PUT'' 4 = 0", simp add: trace_defs,
    cases "strncmp m ''DELETE'' 7 = 0", simp add: trace_defs,
    cases "strncmp m ''CONNECT'' 8 = 0", simp add: trace_defs,
    cases "strncmp m ''OPTIONS'' 8 = 0", simp add: trace_defs,
    cases "strncmp m ''TRACE'' 6 = 0", simp add: trace_defs, simp add: trace_defs)

lemma method_code_table: "is_cstring m \<Longrightarrow> method_code m = 0 \<longleftrightarrow> number_of method_table m = - 1"
  by (simp add: method_code_eq number_of_def method_table_def)

lemma proto_code_table: "is_cstring p \<Longrightarrow> proto_code p = 0 \<longleftrightarrow> number_of proto_table p = - 1"
  by (simp add: proto_code_eq number_of_def proto_table_def)

lemma decode_zero_out:
  "decodeProto_out (put_proto b 0) = ''Protocol not supported'' @ [LF] @ printByteDebug (put_proto b 0)"
  "decodeMethod_out (put_method b 0) = ''Request method missing'' @ [LF] @ printByteDebug (put_method b 0)"
  by (simp_all add: decodeProto_out_def decodeMethod_out_def proto_field.get_put_small method_field.get_put_small)

text \<open>The encoder and the decoder of the protocol print the same line exactly for a protocol they know.\<close>

theorem proto_trace:
  assumes "is_cstring p"
  shows "encodeProto_out p b = decodeProto_out (put_proto b (proto_code p)) @ ''setting the protocol'' @ [LF] \<longleftrightarrow>
    number_of proto_table p \<noteq> - 1"
  using proto_code_table [OF assms]
  by (cases "proto_code p = 0") (simp_all add: encodeProto_out_eq decode_zero_out in_red_def ANSI_COLOR_RED_def)

theorem proto_trace_witness:
  "encodeProto_out ''HTTP/1.1'' 0 = decodeProto_out (put_proto 0 (proto_code ''HTTP/1.1'')) @ ''setting the protocol'' @ [LF]"
  using proto_trace [of "''HTTP/1.1''" 0] by (simp add: is_cstring_def number_of_def proto_table_def)

text \<open>The trace of the method is the same on both sides exactly for a known method: what the server says when it routes a
  request is what it said when it parsed it. An unknown method is reported as unsupported by the encoder, which stores 0,
  and as missing by the decoder.\<close>

theorem method_trace:
  assumes "is_cstring m"
  shows "(encodeMethod_out m b = decodeMethod_out (put_method b (method_code m)) @ ''setting the method'' @ [LF] \<longleftrightarrow>
     number_of method_table m \<noteq> - 1) \<and>
   (number_of method_table m = - 1 \<longrightarrow>
     encodeMethod_out m b = in_red ''Request method not supported'' @ printByteDebug b @ ''setting the method'' @ [LF] \<and>
     prefix ''Request method missing'' (decodeMethod_out (put_method b (method_code m))))"
  using method_code_table [OF assms]
  by (cases "method_code m = 0") (simp_all add: encodeMethod_out_eq decode_zero_out in_red_def ANSI_COLOR_RED_def)

theorem method_trace_witness:
  "encodeMethod_out ''PATCH'' 0 = in_red ''Request method not supported'' @ printByteDebug 0 @ ''setting the method'' @ [LF] \<and>
   prefix ''Request method missing'' (decodeMethod_out (put_method 0 (method_code ''PATCH'')))"
  using method_trace [of "''PATCH''" 0] by (simp add: is_cstring_def number_of_def method_table_def)

text \<open>After the requirements check only two of the four verdicts of \<^verbatim>\<open>decodeReqmts\<close> are ever printed.\<close>

theorem reqmts_trace:
  "decodeReqmts_out (encodeReqmts b) =
     (if decodeProto b \<noteq> - 1 \<and> decodeMethod b \<noteq> - 1 then ''Requirements inspection passed'' @ [LF]
      else ''Malformed information byte ($DROP)'' @ [LF] @ printByteDebug (encodeReqmts b)) \<and>
   (prefix ''Requirements inspection passed'' (encodeReqmts_out b) \<longleftrightarrow>
     decodeReqmts_out (encodeReqmts b) = ''Requirements inspection passed'' @ [LF])"
  by (auto simp: decodeReqmts_out_def encodeReqmts_out_def encodeReqmts_eq reqmts_field.get_put decodeProto_neg decodeMethod_neg
      in_red_def ANSI_COLOR_RED_def)

end
