(* ===== verification/Spec2Isabelle.thy ===== *)
theory Spec2Isabelle
  imports C_Prelude FawkesProto Oop_Dict StringOps Response HostValidation Ssl_IO Request Server Vectors Database Client
    Ssl_Print Stacks Arithmetic Netops Old_Programs Test_Programs Oop_Test Server_Signals Exec_Time
    Fawkes_Trace
begin

text \<open>
  \<^bold>\<open>A model of pwdmanlib in Isabelle/HOL.\<close>

  \<^bold>\<open>The program.\<close> pwdmanlib is a small web server for a password manager, a command line client for it and the utilities both
  are built from. The server (\<^verbatim>\<open>src/server\<close>) binds a socket, accepts connections one after the other, makes each a TLS
  connection (\<^verbatim>\<open>src/crypto/ssl_funcs.h\<close>), reads a request, cuts it at its delimiters (\<^verbatim>\<open>src/util/stringops.h\<close>) into an
  information byte (\<^verbatim>\<open>src/server/fawkes_proto.h\<close>), a path, a body and two dictionaries (\<^verbatim>\<open>src/util/oop.h\<close>), and answers with a
  status line and, for GET, a file. The client (\<^verbatim>\<open>src/client/client_v2.c\<close>) formats a request out of its arguments, checks the
  certificate of the server (\<^verbatim>\<open>src/validation/openssl_validation.h\<close>) and sends it. \<^verbatim>\<open>src/db/database.h\<close> queries the table
  of users, \<^verbatim>\<open>src/util/vector.c\<close> is a growing array. Beside these the sources have stacks behind a table of methods, a search for
  primes, look-ups of addresses and paths, an older client and server, and a test program for most components.

  \<^bold>\<open>How C is modelled.\<close> (theory \<open>C_Prelude\<close>) Every function of the sources is a HOL function into \<open>'a run\<close>: the list of events of the call and
  then its value, or how it stops: \<open>Exit\<close> (a call of \<^verbatim>\<open>exit\<close>), \<open>Crash\<close> (a pointer that cannot be dereferenced, a value never
  written), \<open>Hang\<close> (it never returns). An access outside the object it is meant for is logged as a fault and the run goes on as if the object
  were large enough: a run without faults is a run of conforming C, and the log of any other run says what it overran. The other events
  are what can be observed: bytes written to a socket or a TLS connection, sockets closed, calls of a library that matter for order or release,
  and what the TLS functions write to standard error.
  Strings are lists of bytes without the NUL, a \<^verbatim>\<open>char *\<close> that may be NULL is \<open>string option\<close>, \<^verbatim>\<open>unsigned char\<close> is \<open>8 word\<close>,
  \<^verbatim>\<open>size_t\<close> is \<open>64 word\<close> or a natural number with the wrap-around written out where the code can reach it, \<^verbatim>\<open>int\<close> is \<open>int\<close> with the
  conversions written out. Sizes are those of LP64. \<^verbatim>\<open>malloc\<close> succeeds except where a flag says otherwise. The tracing on standard
  output is left out of the runs, except the reads it makes of cells that may not exist; the trace of the information byte has a theory of its own.

  \<^bold>\<open>What is a parameter.\<close> OpenSSL (a record of its answers during the set-up; for \<^verbatim>\<open>SSL_write\<close> and \<^verbatim>\<open>SSL_read\<close> a function of the number of
  the call), libpq (whether a connection is made, what a query returns), the sockets, the resolver, the file system, the shell, random numbers, signals and
  the contents of fresh memory. The hypotheses about them are named: \<open>write_bounded\<close>, \<open>write_progress\<close>, \<open>delivers\<close>, \<open>tls_ready\<close>, \<open>client_ready\<close>,
  \<open>write_answers\<close>, \<open>db_wf\<close>, \<open>serves_users\<close>; every property that has one has a witness with a concrete instance.

  \<^bold>\<open>The theories.\<close>

  \<^item> \<open>FawkesProto\<close>: \<^verbatim>\<open>fawkes_proto.h\<close>. The three fields of the information byte as interpretations of the locales \<open>byte_field\<close> and
    \<open>disjoint_fields\<close>; encoding and decoding of method and protocol are inverse for every known name, and the requirements
    field is set exactly when both are known.
  \<^item> \<open>Fawkes_Trace\<close>: what these functions print; encoder and decoder say the same exactly for the names they know.
  \<^item> \<open>Oop_Dict\<close>: \<^verbatim>\<open>oop.h\<close>. The dictionary on its array; it refines a finite map of bounded size (locale \<open>bounded_store\<close>) as long as
    nothing is removed; every reachable dictionary (inductive \<open>dict_reachable\<close>) keeps all accesses in the array; what removal breaks.
  \<^item> \<open>StringOps\<close>: \<^verbatim>\<open>stringops.h\<close>. \<^verbatim>\<open>strsplit\<close> against \<open>split_on\<close> and \<open>join_with\<close>, \<^verbatim>\<open>itoa\<close>, \<^verbatim>\<open>strReverse\<close>, \<^verbatim>\<open>joinPath\<close>, \<^verbatim>\<open>readFile\<close>.
  \<^item> \<open>Response\<close>: \<^verbatim>\<open>response.h\<close>. The responses, and that formatting a template is complete and in bounds.
  \<^item> \<open>HostValidation\<close>: \<^verbatim>\<open>openssl_validation.h\<close>. The verdict on a certificate, that a match is never due to an embedded NUL, and the calls
    that fetch and release the list of names.
  \<^item> \<open>Ssl_IO\<close>: \<^verbatim>\<open>ssl_funcs.h\<close>. \<^verbatim>\<open>sendall\<close> and \<^verbatim>\<open>readall\<close> for every way a connection can cut the data; the set-up of client and server
    with its library calls and diagnostics: who is authenticated, what is closed, and that the client reports the first check that fails (\<open>first_failure\<close>).
    Runs that only prepare, report or clean up are \<open>calm\<close> (the rules \<open>calm_intros\<close>).
  \<^item> \<open>Ssl_Print\<close>: the functions of \<^verbatim>\<open>ssl_funcs.h\<close> that print certificates and the error queue: what they release and what they print.
  \<^item> \<open>Request\<close>: \<^verbatim>\<open>parseHeader\<close>, \<^verbatim>\<open>parseQueryStr\<close>, \<^verbatim>\<open>parseRequest\<close> of \<^verbatim>\<open>server.h\<close>. The round trip from the text of a request to its
    parts, what each request overruns, which inputs crash the parser, and that it ends with a well-typed request or a crash for every input.
  \<^item> \<open>Server\<close>: the rest of \<^verbatim>\<open>server.h\<close> and \<^verbatim>\<open>main\<close> of \<^verbatim>\<open>server.c\<close>. Binding, routing, one connection, signals, the accept loop over a
    sequence of connections and signals: which queues it answers completely, which end it, that no input makes it hang, and that
    it never releases the TLS objects of a connection. The loop over the addresses is an interpretation of the locale \<open>address_walk\<close>.
  \<^item> \<open>Server_Signals\<close>: the same loop as a process that signals interrupt at any moment, handlers included: a stack of frames, a step
    relation, its invariant by rule induction; what clients can have been sent, how the process ends, how many steps it
    can make, and that \<open>serve_loop\<close> is one of its executions. It starts at the accept loop, with the listening socket fixed.
  \<^item> \<open>Vectors\<close>: \<^verbatim>\<open>vector.c\<close>. Both vectors interpret the locale \<open>dyn_array\<close>; they refine a list.
  \<^item> \<open>Database\<close>: \<^verbatim>\<open>database.h\<close>, with a state that tracks which connections and results are live; every function keeps its invariant
    (the rules \<open>db_intros\<close>); for which user names the statement of \<^verbatim>\<open>authenticateUser\<close> is the intended one.
  \<^item> \<open>Client\<close>: \<^verbatim>\<open>client_v2.c\<close>, its Linux and its Windows branch, and \<^verbatim>\<open>client.h\<close>. The size and the text of the request, that the Linux
    build sends nothing to a server that has not been authenticated, the port it connects to, and that the Windows build sends everything in the clear.
  \<^item> \<open>Stacks\<close>: the table of methods, the module and the hash map of \<^verbatim>\<open>oop.h\<close> and \<^verbatim>\<open>oop.c\<close>; a call never crosses over to the other implementation.
  \<^item> \<open>Arithmetic\<close>: \<^verbatim>\<open>arithmetic.h\<close>. The power loop computes the modular power, \<^verbatim>\<open>isPrime\<close> is Fermat's test with nine bases and accepts every
    prime in its range (with Fermat's theorem proved from the binomial theorem), and the search for a prime returns.
  \<^item> \<open>Netops\<close>: \<^verbatim>\<open>netops.h\<close> and \<^verbatim>\<open>osinfo.c\<close>. The look-ups of addresses, names and paths on every path through them.
  \<^item> \<open>Old_Programs\<close>: \<^verbatim>\<open>client.c\<close> and \<^verbatim>\<open>server_socket.c\<close>. The connection loop is the second interpretation of \<open>address_walk\<close>; the client never connects.
  \<^item> \<open>Test_Programs\<close>, \<open>Oop_Test\<close>: the programs of \<^verbatim>\<open>src/test\<close> as clients of the components; that they pass, and what they print.
  \<^item> \<open>Exec_Time\<close>: \<^verbatim>\<open>calcExecTime\<close> of \<^verbatim>\<open>oop_test.c\<close> with the rounding of IEEE 754 doubles on rational numbers; its error and its sign.
  \<^item> this theory: what the client sends is what the server understands, and whole sessions from the command line to the answer.

  \<^bold>\<open>Loops.\<close> Loops that end are total functions with a measure. Four that may not end are partial functions into \<open>option\<close>
  (\<open>sendall_loop\<close>, \<open>int_vector_fill\<close> and its twin, \<open>reap_loop\<close>, \<open>findPrime_loop\<close>); for these it is proved when they return, and for
  the first three which inputs they never return for.
  There is no fuel. The accept loop runs over the list of its inputs and is waiting for more when the list ends.

  \<^bold>\<open>Not modelled.\<close> What OpenSSL puts into its error queue (its contents at each report are a parameter); \<^verbatim>\<open>perror\<close> and the tracing
  of the parser and of \<^verbatim>\<open>main\<close>; the functions of the hash map that
  are declared and defined nowhere; the C++ experiments under \<^verbatim>\<open>src/crypto\<close> and \<^verbatim>\<open>src/gui\<close>, include lists and an unfinished call of
  libraries; test data, certificates and the files CMake generates.
\<close>

section \<open>From the client to the server\<close>

lemma join_lines: "join_with d (xs @ [[], b]) = concat (map (\<lambda>x. x @ d) xs) @ d @ b"
  by (induction xs) (simp_all add: join_with_Cons)

lemma get_text_rendered:
  assumes "argv ! 3 = ''GET''" "drop 6 argv = map header_line hs"
    "if qs = [] then length argv = 5 \<or> argv ! 5 = [] else 5 < length argv \<and> argv ! 5 = join_with ''&'' (map query_part qs)"
    "5 \<le> length argv"
  shows "get_text argv =
    render_request ''GET'' (client_path argv) qs ''HTTP/1.0'' ((''Host'', client_host argv) # hs) []"
proof -
  have "qs \<noteq> [] \<Longrightarrow> join_with ''&'' (map query_part qs) \<noteq> []"
    using join_with_eq_Nil [of "''&''" "map query_part qs"] by (auto simp: query_part_def)
  then show ?thesis
    using assms(2-4) join_lines [of crlf
      "request_line ''GET'' (render_target (client_path argv) qs) ''HTTP/1.0'' # map header_line ((''Host'', client_host argv) # hs)" "[]"]
    by (cases "qs = []")
      (auto simp: get_text_def render_lines_def request_line_def render_target_def header_line_def header_bytes_def comp_def)
qed

lemma other_text_rendered:
  assumes "drop 6 argv = map header_line hs" "5 < length argv"
  shows "other_text argv = render_request (argv ! 3) (client_path argv) [] ''HTTP/1.0''
    ((''Host'', client_host argv) # hs @ [(''Content-Length'', int_digits (int (length (argv ! 5))))]) (argv ! 5)"
  using assms join_lines [of crlf
    "request_line (argv ! 3) (client_path argv) ''HTTP/1.0'' # map header_line ((''Host'', client_host argv) # hs @
      [(''Content-Length'', int_digits (int (length (argv ! 5))))])" "argv ! 5"]
  by (simp add: other_text_def render_lines_def request_line_def render_target_def header_line_def header_bytes_def comp_def)

text \<open>A client whose connection can be set up, and whose TLS writes make progress.\<close>

definition client_ready :: "client_env \<Rightarrow> bool" where
  "client_ready e \<longleftrightarrow> write_progress (client_writes e) \<and> init_ssl (client_tls e) \<noteq> 0 \<and> init_crypto (client_tls e) \<noteq> 0 \<and>
     ctx_ok (client_tls e) \<and> load_verify (client_tls e) = 1 \<and> ssl_new_ok (client_tls e) \<and> set_fd (client_tls e) \<noteq> 0 \<and>
     0 < handshake (client_tls e) \<and> validate_hostname (Some ''devopsec.net'') (peer_cert (client_tls e)) = MatchFound \<and>
     peer_cert (client_tls e) \<noteq> None"

lemma main_client_sends:
  assumes "client_ready e" "5 \<le> length argv" "snd (build_message argv) = Inr msg" "length msg < message_size argv"
    "is_cstring msg"
  shows "SslWrite (message_bytes (old_heap e) (message_size argv) msg) \<in> set (fst (main_client e argv))"
proof -
  let ?m = "message_bytes (old_heap e) (message_size argv) msg"
  have len: "length ?m = message_size argv" using message_bytes_fits [OF assms(4,5)] by simp
  then have ne: "?m \<noteq> []" using assms(4) by auto
  obtain l c where c: "openConnection e (client_host argv) (client_port argv) = (l, Inr c)"
    by (rule openConnection_run)
  have cfg: "snd (configClientSSL (client_tls e) c) = Inr ()"
    using assms(1) by (auto simp: configClientSSL_Inr client_ready_def)
  have ini: "snd (initSSL (client_tls e)) = Inr ()"
    using assms(1) by (simp add: client_ready_def initSSL_def seq_emit) (simp add: emit_def)
  have "sendall (client_writes e) ?m (int (message_size argv)) = ([SslWrite ?m], Inr (0, int (message_size argv)))"
    using sendall_complete [OF _ ne] assms(1) len by (simp add: client_ready_def)
  then show ?thesis
    using assms(2,3) c cfg ini by (simp add: main_client_def snd_bind_Inr bind_pair)
qed

text \<open>What the parser of the server makes of a well-formed request, as a whole.\<close>

definition understood :: "request \<Rightarrow> string \<Rightarrow> string \<Rightarrow> (string \<times> string) list \<Rightarrow> (string \<times> string) list \<Rightarrow> string \<Rightarrow> bool" where
  "understood r m p qs hs b \<longleftrightarrow>
     path r = p \<and> dict_map (headers r) = map_of (rev (some_snd hs)) \<and> dict_map (query r) = map_of (rev (some_snd qs)) \<and>
     body r = (if b = [] then Null else Str b) \<and> decodeMethod (info r) = number_of method_table m"

lemma parse_rendered_understood:
  assumes "request_ok m p qs pr hs [b]" "length hs \<le> 50" "length qs \<le> 20"
  shows "\<exists>r. snd (parseRequest (Some (render_request m p qs pr hs b))) = Inr r \<and> understood r m p qs hs b"
proof -
  note keys = request_ok_keys [OF assms(1)]
  obtain q h where
    q: "dict_store.put_all (dict_of 20 []) (some_snd qs) = ret q" "dict_map q = map_of (rev (some_snd qs))" and
    h: "dict_store.put_all (dict_of 50 []) (some_snd hs) = ret h" "dict_map h = map_of (rev (some_snd hs))"
    using stored_all [OF keys(1) assms(3)] stored_all [OF keys(2) assms(2)] by auto
  have "decodeMethod (put_method (put_proto 0 (proto_code pr)) (method_code m)) = number_of method_table m"
    using keys by (simp add: decodeMethod_code method_number [symmetric])
  with parseRequest_rendered [OF assms(1,2) q(1) h(1)] q(2) h(2) show ?thesis by (simp add: understood_def)
qed

text \<open>The bytes of a request on the TLS connection: the text of the request, a NUL, and the rest of the buffer.\<close>

lemma client_get_bytes:
  assumes "client_ready e" "argv ! 3 = ''GET''" "5 \<le> length argv" "drop 6 argv = map header_line hs"
    "if qs = [] then length argv = 5 \<or> argv ! 5 = [] else 5 < length argv \<and> argv ! 5 = join_with ''&'' (map query_part qs)"
    "5 < length argv \<longrightarrow> CHR '' '' \<notin> set (argv ! 5)"
    "length (client_host argv) < 9" "is_cstring (get_text argv)"
  shows "\<exists>bytes. SslWrite bytes \<in> set (fst (main_client e argv)) \<and> length bytes = message_size argv \<and>
    cstr_of bytes = render_request ''GET'' (client_path argv) qs ''HTTP/1.0'' ((''Host'', client_host argv) # hs) []"
proof -
  have "strcmp (argv ! 3) ''GET'' = 0" using assms(2) by simp
  then have fits: "length (get_text argv) < message_size argv"
    using assms(2,7) by (simp add: message_size_def Let_def get_text_def format_lengths header_bytes_length)
  note sent = main_client_sends [OF assms(1,3) build_get(1) [OF assms(2,6)] fits assms(8)]
  with message_bytes_fits [OF fits assms(8)] get_text_rendered [OF assms(2,4,5,3)] show ?thesis by metis
qed

lemma client_body_bytes:
  assumes "client_ready e" "argv ! 3 \<noteq> ''GET''" "argv ! 3 \<noteq> []" "5 < length argv" "drop 6 argv = map header_line hs"
    "is_cstring (argv ! 3)" "length (client_host argv) + length (int_digits (int (length (argv ! 5)))) < 18"
    "is_cstring (other_text argv)"
  shows "\<exists>bytes. SslWrite bytes \<in> set (fst (main_client e argv)) \<and> length bytes = message_size argv \<and>
    cstr_of bytes = render_request (argv ! 3) (client_path argv) [] ''HTTP/1.0''
      ((''Host'', client_host argv) # hs @ [(''Content-Length'', int_digits (int (length (argv ! 5))))]) (argv ! 5)"
proof -
  have "strcmp (argv ! 3) ''GET'' \<noteq> 0" using assms(2,6) by (simp add: strcmp_eq_0 is_cstring_def)
  then have fits: "length (other_text argv) < message_size argv"
    using assms(4,7) by (simp add: message_size_def Let_def other_text_def format_lengths header_bytes_length)
  have "5 \<le> length argv" using assms(4) by simp
  note sent = main_client_sends [OF assms(1) this build_other(1) [OF assms(2,3,6)] fits assms(8)]
  with message_bytes_fits [OF fits assms(8)] other_text_rendered [OF assms(5,4)] show ?thesis by metis
qed


definition sample_client :: client_env where
  "sample_client = \<lparr>host_found = True, sock_fd = 3, connect_ok = True,
     client_tls = sample_env\<lparr>handshake := 1, peer_cert := Some devopsec_cert\<rparr>,
     client_writes = (\<lambda>k n. n), client_reads = (\<lambda>k. (0, [])), old_heap = (\<lambda>i. CHR ''x'')\<rparr>"

lemma sample_client_ready: "client_ready sample_client"
proof -
  have "validate_hostname (Some ''devopsec.net'') (Some devopsec_cert) = MatchFound" by code_simp
  then show ?thesis by (simp add: client_ready_def sample_client_def sample_env_def write_progress_def)
qed




section \<open>A session\<close>

text \<open>A connection of the server over which the given bytes arrive, in some chunks.\<close>

definition carries :: "conn_env \<Rightarrow> string list \<Rightarrow> string \<Rightarrow> bool" where
  "carries c cs bytes \<longleftrightarrow> tls_ready (tls c) \<and> delivers (reads c) 0 cs 0 \<and> concat cs = bytes"

lemma carries_requests:
  assumes "carries c cs bytes" "cstr_of bytes = render_request m p qs pr hs b" "request_ok m p qs pr hs [b]" "length hs \<le> 50"
    "int (length bytes) < SOCK_BUFF_DEF_READ"
  shows "requests c cs m p qs pr hs b"
  using assms by (simp add: carries_def requests_def)





end
